theory Spec2Isabelle
  imports Complex_Main "HOL-Library.Log_Nat"
begin

section \<open>Python values and exceptions\<close>

text \<open>
  The service is a Python module (\<^verbatim>\<open>src/app.py\<close>). Its functions work on Python
  floats (IEEE 754 binary64), unbounded integers, strings and JSON-like dictionaries.
  An exception that leaves a function is a value \<open>Inl e\<close> of the result type
  \<open>py_error + 'a\<close>. The message of a \<open>ValueError\<close> is kept where the source gives
  one; exceptions raised by built-ins carry the empty message.
\<close>

datatype py_error =
    ValueError string
  | TypeError
  | KeyError string
  | ZeroDivisionError
  | OverflowError

section \<open>IEEE 754 binary64\<close>

text \<open>
  A Python float is a NaN, an infinity with its sign bit, or a finite number given by
  its sign bit (\<open>True\<close> is negative) and its magnitude, a rational number.
  \<open>Fin True 0\<close> is \<^verbatim>\<open>-0.0\<close>.
\<close>

datatype double = NaN | Inf bool | Fin bool rat

text \<open>Rounding a rational to the nearest integer, ties to the even one.\<close>

definition round_half_even :: "rat \<Rightarrow> int" where
  "round_half_even x =
     (let f = \<lfloor>x\<rfloor>; d = x - of_int f
      in if d < 1 / 2 then f
         else if 1 / 2 < d then f + 1
         else if even f then f else f + 1)"

text \<open>
  \<open>rnd53 t\<close> rounds \<open>t \<ge> 0\<close> to 53 significant bits, no bit below the unit: with
  \<open>k\<close> the number of bits of \<open>\<lfloor>t\<rfloor>\<close> beyond 53, the result is the multiple of
  \<open>2 ^ k\<close> nearest to \<open>t\<close>, ties to even.
\<close>

definition rnd53 :: "rat \<Rightarrow> rat" where
  "rnd53 t = (let k = nat (bitlen \<lfloor>t\<rfloor> - 53)
              in of_int (round_half_even (t / 2 ^ k)) * 2 ^ k)"

text \<open>
  \<open>fl_mag q\<close> is the binary64 magnitude nearest to \<open>q \<ge> 0\<close> (round to nearest, ties
  to even), or \<open>None\<close> when the rounded value is beyond the largest finite double.
  The unit is the smallest subnormal, \<open>2 ^ -1074\<close>; the overflow threshold is
  \<open>2 ^ 1024\<close>.
\<close>

definition fl_mag :: "rat \<Rightarrow> rat option" where
  "fl_mag q =
     (let r = rnd53 (q * 2 ^ 1074)
      in if 2 ^ 2098 \<le> r then None else Some (r / 2 ^ 1074))"

text \<open>The result of an IEEE operation whose exact value has magnitude \<open>q\<close>: overflow gives an infinity.\<close>

definition mk_double :: "bool \<Rightarrow> rat \<Rightarrow> double" where
  "mk_double s q = (case fl_mag q of None \<Rightarrow> Inf s | Some m \<Rightarrow> Fin s m)"

text \<open>A value is a binary64 number when rounding leaves its magnitude unchanged.\<close>

fun valid_double :: "double \<Rightarrow> bool" where
  "valid_double NaN = True"
| "valid_double (Inf s) = True"
| "valid_double (Fin s m) = (0 \<le> m \<and> fl_mag m = Some m)"

text \<open>The rational value of a finite double.\<close>

definition sval :: "bool \<Rightarrow> rat \<Rightarrow> rat" where
  "sval s m = (if s then - m else m)"

text \<open>A decimal literal of the source (\<^verbatim>\<open>0.92\<close>) denotes the double nearest to it.\<close>

definition double_of_literal :: "rat \<Rightarrow> double" where
  "double_of_literal q = mk_double False q"

subsection \<open>Python's float operators\<close>

text \<open>\<^verbatim>\<open>a * b\<close> on floats never raises.\<close>

fun fmul :: "double \<Rightarrow> double \<Rightarrow> double" where
  "fmul NaN b = NaN"
| "fmul a NaN = NaN"
| "fmul (Inf s) (Inf t) = Inf (s \<noteq> t)"
| "fmul (Inf s) (Fin t n) = (if n = 0 then NaN else Inf (s \<noteq> t))"
| "fmul (Fin s m) (Inf t) = (if m = 0 then NaN else Inf (s \<noteq> t))"
| "fmul (Fin s m) (Fin t n) = mk_double (s \<noteq> t) (m * n)"

text \<open>\<^verbatim>\<open>a / b\<close> on floats raises ZeroDivisionError when \<^verbatim>\<open>b == 0.0\<close>, whatever \<open>a\<close> is.\<close>

fun fdiv :: "double \<Rightarrow> double \<Rightarrow> py_error + double" where
  "fdiv a (Fin t n) =
     (if n = 0 then Inl ZeroDivisionError
      else (case a of
              NaN \<Rightarrow> Inr NaN
            | Inf s \<Rightarrow> Inr (Inf (s \<noteq> t))
            | Fin s m \<Rightarrow> Inr (mk_double (s \<noteq> t) (m / n))))"
| "fdiv a NaN = Inr NaN"
| "fdiv a (Inf t) =
     (case a of
        NaN \<Rightarrow> Inr NaN
      | Inf s \<Rightarrow> Inr NaN
      | Fin s m \<Rightarrow> Inr (Fin (s \<noteq> t) 0))"

fun fneg :: "double \<Rightarrow> double" where
  "fneg NaN = NaN"
| "fneg (Inf s) = Inf (\<not> s)"
| "fneg (Fin s m) = Fin (\<not> s) m"

fun fadd :: "double \<Rightarrow> double \<Rightarrow> double" where
  "fadd NaN b = NaN"
| "fadd a NaN = NaN"
| "fadd (Inf s) (Inf t) = (if s = t then Inf s else NaN)"
| "fadd (Inf s) (Fin t n) = Inf s"
| "fadd (Fin s m) (Inf t) = Inf t"
| "fadd (Fin s m) (Fin t n) =
     (let v = sval s m + sval t n
      in if v = 0 then Fin (s \<and> t) 0 else mk_double (v < 0) \<bar>v\<bar>)"

definition fsub :: "double \<Rightarrow> double \<Rightarrow> double" where
  "fsub a b = fadd a (fneg b)"

text \<open>
  \<^verbatim>\<open>round(x, ndigits)\<close> for a float and \<open>ndigits \<ge> 0\<close> (CPython's \<^verbatim>\<open>float.__round__\<close>):
  NaN and the infinities round to themselves; beyond 323 digits every float does;
  otherwise the exact value is rounded to \<open>ndigits\<close> decimals, ties to even, and the
  decimal is converted back to the nearest double, keeping the sign. OverflowError
  when the conversion overflows.
\<close>

definition py_round :: "double \<Rightarrow> nat \<Rightarrow> py_error + double" where
  "py_round x ndigits =
     (case x of
        NaN \<Rightarrow> Inr NaN
      | Inf s \<Rightarrow> Inr (Inf s)
      | Fin s m \<Rightarrow>
          if 323 < ndigits then Inr x
          else (case fl_mag (of_int (round_half_even (m * 10 ^ ndigits)) / 10 ^ ndigits) of
                  None \<Rightarrow> Inl OverflowError
                | Some r \<Rightarrow> Inr (Fin s r)))"

text \<open>\<^verbatim>\<open>float(n)\<close> for an integer: the nearest double, OverflowError beyond the range.\<close>

definition int_to_double :: "int \<Rightarrow> py_error + double" where
  "int_to_double n =
     (case fl_mag \<bar>of_int n\<bar> of
        None \<Rightarrow> Inl OverflowError
      | Some m \<Rightarrow> Inr (Fin (n < 0) m))"

text \<open>
  \<^verbatim>\<open>a / b\<close> on integers (true division): ZeroDivisionError for \<open>b = 0\<close>, otherwise the
  double nearest to the exact quotient, with the sign of the quotient also on a zero
  result, and OverflowError when it is beyond the range.
\<close>

definition int_truediv :: "int \<Rightarrow> int \<Rightarrow> py_error + double" where
  "int_truediv a b =
     (if b = 0 then Inl ZeroDivisionError
      else (case fl_mag (\<bar>of_int a\<bar> / \<bar>of_int b\<bar>) of
              None \<Rightarrow> Inl OverflowError
            | Some m \<Rightarrow> Inr (Fin ((a < 0) \<noteq> (b < 0)) m)))"

section \<open>JSON bodies\<close>

text \<open>
  \<^verbatim>\<open>request.json\<close> is the parsed body; the endpoints index it as a dictionary, here
  an association list read with \<open>map_of\<close>. A JSON value is a Python object.
\<close>

datatype pyval =
    PNone
  | PBool bool
  | PInt int
  | PFloat double
  | PStr string
  | PList "pyval list"
  | PDict "(string \<times> pyval) list"

type_synonym json_dict = "(string \<times> pyval) list"

text \<open>\<^verbatim>\<open>data[k]\<close> and \<^verbatim>\<open>data.get(k, default)\<close>.\<close>

definition getitem :: "json_dict \<Rightarrow> string \<Rightarrow> py_error + pyval" where
  "getitem data k = (case map_of data k of None \<Rightarrow> Inl (KeyError k) | Some v \<Rightarrow> Inr v)"

definition dict_get :: "json_dict \<Rightarrow> string \<Rightarrow> pyval \<Rightarrow> pyval" where
  "dict_get data k dflt = (case map_of data k of None \<Rightarrow> dflt | Some v \<Rightarrow> v)"

text \<open>
  \<^verbatim>\<open>float(v)\<close> and \<^verbatim>\<open>int(v)\<close>. How Python reads a number out of a string is a
  parameter: \<open>sf s\<close> and \<open>si s\<close> are \<open>None\<close> where the built-in raises ValueError.
\<close>

fun py_float :: "(string \<Rightarrow> double option) \<Rightarrow> pyval \<Rightarrow> py_error + double" where
  "py_float sf PNone = Inl TypeError"
| "py_float sf (PBool b) = Inr (Fin False (if b then 1 else 0))"
| "py_float sf (PInt n) = int_to_double n"
| "py_float sf (PFloat d) = Inr d"
| "py_float sf (PStr s) = (case sf s of None \<Rightarrow> Inl (ValueError []) | Some d \<Rightarrow> Inr d)"
| "py_float sf (PList xs) = Inl TypeError"
| "py_float sf (PDict kvs) = Inl TypeError"

fun py_int :: "(string \<Rightarrow> int option) \<Rightarrow> pyval \<Rightarrow> py_error + int" where
  "py_int si PNone = Inl TypeError"
| "py_int si (PBool b) = Inr (if b then 1 else 0)"
| "py_int si (PInt n) = Inr n"
| "py_int si (PFloat NaN) = Inl (ValueError [])"
| "py_int si (PFloat (Inf s)) = Inl OverflowError"
| "py_int si (PFloat (Fin s m)) = Inr (if s then - \<lfloor>m\<rfloor> else \<lfloor>m\<rfloor>)"
| "py_int si (PStr s) = (case si s of None \<Rightarrow> Inl (ValueError []) | Some n \<Rightarrow> Inr n)"
| "py_int si (PList xs) = Inl TypeError"
| "py_int si (PDict kvs) = Inl TypeError"

section \<open>The currency service\<close>

text \<open>\<^verbatim>\<open>CurrencyService.fallback_rates\<close>, in insertion order.\<close>

definition fallback_rates :: "(string \<times> double) list" where
  "fallback_rates =
     [(''USD'', double_of_literal 1),
      (''EUR'', double_of_literal (92 / 100)),
      (''GBP'', double_of_literal (78 / 100)),
      (''JPY'', double_of_literal 150)]"

text \<open>
  \<^verbatim>\<open>k not in fallback_rates\<close>: the keys are strings, so only a string can be a key;
  a list or a dictionary is unhashable and the test raises TypeError.
\<close>

fun not_in_rates :: "pyval \<Rightarrow> py_error + bool" where
  "not_in_rates (PStr s) = Inr (map_of fallback_rates s = None)"
| "not_in_rates (PList xs) = Inl TypeError"
| "not_in_rates (PDict kvs) = Inl TypeError"
| "not_in_rates v = Inr True"

text \<open>\<^verbatim>\<open>fallback_rates[k]\<close>.\<close>

fun rates_getitem :: "pyval \<Rightarrow> py_error + double" where
  "rates_getitem (PStr s) =
     (case map_of fallback_rates s of None \<Rightarrow> Inl (KeyError s) | Some r \<Rightarrow> Inr r)"
| "rates_getitem (PList xs) = Inl TypeError"
| "rates_getitem (PDict kvs) = Inl TypeError"
| "rates_getitem v = Inl (KeyError [])"

text \<open>
  \<^verbatim>\<open>CurrencyService.convert_currency(ctx, from_currency, to_currency, amount)\<close>; the
  context is not used. \<^verbatim>\<open>or\<close> tests \<open>to_currency\<close> only when \<open>from_currency\<close> is a key.
\<close>

definition convert_currency :: "pyval \<Rightarrow> pyval \<Rightarrow> double \<Rightarrow> py_error + double" where
  "convert_currency from_currency to_currency amount =
     (case not_in_rates from_currency of
        Inl e \<Rightarrow> Inl e
      | Inr nf \<Rightarrow>
          (case (if nf then Inr True else not_in_rates to_currency) of
             Inl e \<Rightarrow> Inl e
           | Inr invalid \<Rightarrow>
               if invalid then Inl (ValueError ''Invalid currency code.'')
               else (case rates_getitem to_currency of
                       Inl e \<Rightarrow> Inl e
                     | Inr t \<Rightarrow>
                         (case rates_getitem from_currency of
                            Inl e \<Rightarrow> Inl e
                          | Inr f \<Rightarrow>
                              (case fdiv t f of
                                 Inl e \<Rightarrow> Inl e
                               | Inr rate \<Rightarrow> py_round (fmul amount rate) 2)))))"

text \<open>The SOAP record \<^verbatim>\<open>Rate\<close>.\<close>

record Rate =
  currency :: string
  rate :: double

text \<open>
  The loop of \<^verbatim>\<open>get_rates\<close> over \<^verbatim>\<open>fallback_rates.items()\<close>. The generator is
  modelled by the list of all it yields, as \<^verbatim>\<open>list(...)\<close> collects it; an exception
  in the loop is the result.
\<close>

fun rates_loop :: "double \<Rightarrow> (string \<times> double) list \<Rightarrow> py_error + Rate list" where
  "rates_loop base [] = Inr []"
| "rates_loop base ((cur, r) # items) =
     (case fdiv r base of
        Inl e \<Rightarrow> Inl e
      | Inr q \<Rightarrow>
          (case py_round q 3 of
             Inl e \<Rightarrow> Inl e
           | Inr v \<Rightarrow>
               (case rates_loop base items of
                  Inl e \<Rightarrow> Inl e
                | Inr rest \<Rightarrow> Inr (\<lparr>currency = cur, rate = v\<rparr> # rest))))"

definition get_rates :: "pyval \<Rightarrow> py_error + Rate list" where
  "get_rates base_currency =
     (case not_in_rates base_currency of
        Inl e \<Rightarrow> Inl e
      | Inr invalid \<Rightarrow>
          if invalid then Inl (ValueError ''Invalid base currency'')
          else (case rates_getitem base_currency of
                  Inl e \<Rightarrow> Inl e
                | Inr base \<Rightarrow> rates_loop base fallback_rates))"

section \<open>The REST endpoints\<close>

text \<open>
  A view returns the dictionary given to \<^verbatim>\<open>jsonify\<close> and the HTTP status; an
  exception that leaves the view is \<open>Inl\<close>.
\<close>

type_synonym response = "json_dict \<times> nat"

text \<open>\<^verbatim>\<open>POST /convert\<close>.\<close>

definition convert :: "(string \<Rightarrow> double option) \<Rightarrow> json_dict \<Rightarrow> py_error + response" where
  "convert sf data =
     (let from_currency = dict_get data ''from_currency'' PNone;
          to_currency = dict_get data ''to_currency'' PNone
      in case py_float sf (dict_get data ''amount'' (PFloat (double_of_literal 1))) of
           Inl e \<Rightarrow> Inl e
         | Inr amount \<Rightarrow>
             (case convert_currency from_currency to_currency amount of
                Inl e \<Rightarrow> Inl e
              | Inr result \<Rightarrow>
                  Inr ([(''from_currency'', from_currency),
                        (''to_currency'', to_currency),
                        (''amount'', PFloat amount),
                        (''result'', PFloat result)], 200)))"

text \<open>
  \<^verbatim>\<open>POST /convert_temp\<close>. The integer literals 9, 5 and 32 become floats in the
  mixed arithmetic.
\<close>

definition convert_temp :: "(string \<Rightarrow> double option) \<Rightarrow> json_dict \<Rightarrow> py_error + response" where
  "convert_temp sf data =
     (case getitem data ''from_unit'' of
        Inl e \<Rightarrow> Inl e
      | Inr from_unit \<Rightarrow>
     (case getitem data ''to_unit'' of
        Inl e \<Rightarrow> Inl e
      | Inr to_unit \<Rightarrow>
     (case getitem data ''value'' of
        Inl e \<Rightarrow> Inl e
      | Inr v \<Rightarrow>
     (case py_float sf v of
        Inl e \<Rightarrow> Inl e
      | Inr val \<Rightarrow>
     (case (if from_unit = PStr ''C'' \<and> to_unit = PStr ''F''
            then (case fdiv (fmul val (Fin False 9)) (Fin False 5) of
                    Inl e \<Rightarrow> Inl e
                  | Inr q \<Rightarrow> Inr (Some (fadd q (Fin False 32))))
            else if from_unit = PStr ''F'' \<and> to_unit = PStr ''C''
            then (case fdiv (fmul (fsub val (Fin False 32)) (Fin False 5)) (Fin False 9) of
                    Inl e \<Rightarrow> Inl e
                  | Inr q \<Rightarrow> Inr (Some q))
            else Inr None) of
        Inl e \<Rightarrow> Inl e
      | Inr None \<Rightarrow> Inr ([(''error'', PStr ''Invalid conversion units'')], 400)
      | Inr (Some result) \<Rightarrow>
          (case py_round result 2 of
             Inl e \<Rightarrow> Inl e
           | Inr r \<Rightarrow>
               Inr ([(''from_unit'', from_unit),
                     (''to_unit'', to_unit),
                     (''value'', PFloat val),
                     (''result'', PFloat r)], 200)))))))"

text \<open>\<^verbatim>\<open>POST /calculate\<close>.\<close>

definition calculate :: "(string \<Rightarrow> int option) \<Rightarrow> json_dict \<Rightarrow> py_error + response" where
  "calculate si data =
     (case getitem data ''operation'' of
        Inl e \<Rightarrow> Inl e
      | Inr op \<Rightarrow>
     (case getitem data ''intA'' of
        Inl e \<Rightarrow> Inl e
      | Inr va \<Rightarrow>
     (case py_int si va of
        Inl e \<Rightarrow> Inl e
      | Inr a \<Rightarrow>
     (case getitem data ''intB'' of
        Inl e \<Rightarrow> Inl e
      | Inr vb \<Rightarrow>
     (case py_int si vb of
        Inl e \<Rightarrow> Inl e
      | Inr b \<Rightarrow>
     (case (if op = PStr ''add'' then Inr (Some (PInt (a + b)))
            else if op = PStr ''subtract'' then Inr (Some (PInt (a - b)))
            else if op = PStr ''multiply'' then Inr (Some (PInt (a * b)))
            else if op = PStr ''divide''
            then (if b \<noteq> 0
                  then (case int_truediv a b of
                          Inl e \<Rightarrow> Inl e
                        | Inr q \<Rightarrow> Inr (Some (PFloat q)))
                  else Inr (Some (PStr ''Infinity'')))
            else Inr None) of
        Inl e \<Rightarrow> Inl e
      | Inr None \<Rightarrow> Inr ([(''error'', PStr ''Invalid operation'')], 400)
      | Inr (Some result) \<Rightarrow>
          Inr ([(''operation'', op),
                (''intA'', PInt a),
                (''intB'', PInt b),
                (''result'', result)], 200)))))))"

section \<open>The round trip of the specification\<close>

text \<open>
  The expression of the specification's round-trip property,
  \<open>convertCurrency(A, B, amt) * convertCurrency(B, A, 1)\<close>, with the float product.
\<close>

definition round_trip :: "string \<Rightarrow> string \<Rightarrow> double \<Rightarrow> py_error + double" where
  "round_trip a b amt =
     (case convert_currency (PStr a) (PStr b) amt of
        Inl e \<Rightarrow> Inl e
      | Inr x \<Rightarrow>
          (case convert_currency (PStr b) (PStr a) (Fin False 1) of
             Inl e \<Rightarrow> Inl e
           | Inr y \<Rightarrow> Inr (fmul x y)))"

section \<open>Properties of the rounding functions\<close>

subsection \<open>Rounding to an integer\<close>

lemma rhe_unique:
  assumes "\<bar>x - of_int m\<bar> < 1 / 2"
  shows "round_half_even x = m"
proof -
  have lo: "of_int m - 1 / 2 < x" and hi: "x < of_int m + 1 / 2"
    using assms unfolding abs_less_iff by linarith+
  show ?thesis
  proof (cases "of_int m \<le> x")
    case True
    have "x < of_int m + 1" using hi by linarith
    then have f: "\<lfloor>x\<rfloor> = m" using True by (intro floor_unique) auto
    have "x - of_int m < 1 / 2" using hi by linarith
    then show ?thesis using f by (simp add: round_half_even_def Let_def)
  next
    case False
    have "of_int (m - 1) \<le> x" using lo by simp
    moreover have "x < of_int (m - 1) + 1" using False by simp
    ultimately have f: "\<lfloor>x\<rfloor> = m - 1" by (rule floor_unique)
    have "1 / 2 < x - of_int (m - 1)" using lo by simp
    then show ?thesis using f by (simp add: round_half_even_def Let_def)
  qed
qed

lemma rhe_of_int: "round_half_even (of_int m) = m"
  by (rule rhe_unique) simp

lemma rhe_err: "\<bar>of_int (round_half_even x) - x\<bar> \<le> 1 / 2"
proof -
  have "of_int \<lfloor>x\<rfloor> \<le> x" "x < of_int \<lfloor>x\<rfloor> + 1" by linarith+
  then show ?thesis
    unfolding round_half_even_def Let_def by (auto simp: not_less abs_le_iff)
qed

subsection \<open>Rounding to 53 bits: evaluation by a certificate\<close>

text \<open>
  \<open>rnd53 t\<close> is \<open>m * 2 ^ k\<close> once \<open>t\<close> is shown to lie in the binade of exponent \<open>k\<close>
  and strictly nearer to \<open>m * 2 ^ k\<close> than half a unit; concrete values are computed this way.
\<close>

lemma bitlen_le: "0 \<le> x \<Longrightarrow> x < 2 ^ n \<Longrightarrow> bitlen x \<le> int n"
  by (simp add: bitlen_def floorlog_le_iff nat_less_iff)

lemma bitlen_ge:
  assumes "2 ^ n \<le> x"
  shows "int n + 1 \<le> bitlen x"
proof -
  have "(2::nat) ^ n \<le> nat x"
    using assms by (simp add: le_nat_iff)
  then have "Suc n \<le> floorlog 2 (nat x)" by (intro floorlog_ge_SucI) auto
  then show ?thesis by (simp add: bitlen_def)
qed

lemma rnd53_cert:
  assumes "0 \<le> t" and "k = 0 \<or> 2 ^ (52 + k) \<le> t" and "t < 2 ^ (53 + k)"
    and "\<bar>t - of_int m * 2 ^ k\<bar> < 2 ^ k / 2"
  shows "rnd53 t = of_int m * 2 ^ k"
proof -
  have fl: "0 \<le> \<lfloor>t\<rfloor>" using assms(1) by simp
  have "\<lfloor>t\<rfloor> < 2 ^ (53 + k)" using assms(3) by (simp add: floor_less_iff)
  then have up: "bitlen \<lfloor>t\<rfloor> \<le> int (53 + k)" using fl by (intro bitlen_le)
  have "nat (bitlen \<lfloor>t\<rfloor> - 53) = k"
  proof (cases "k = 0")
    case True
    then show ?thesis using up by simp
  next
    case False
    then have "2 ^ (52 + k) \<le> t" using assms(2) by simp
    then have "2 ^ (52 + k) \<le> \<lfloor>t\<rfloor>" by (simp add: le_floor_iff)
    then have "int (52 + k) + 1 \<le> bitlen \<lfloor>t\<rfloor>" by (rule bitlen_ge)
    then show ?thesis using up by simp
  qed
  moreover have "round_half_even (t / 2 ^ k) = m"
  proof (rule rhe_unique)
    have "\<bar>t / 2 ^ k - of_int m\<bar> = \<bar>t - of_int m * 2 ^ k\<bar> / 2 ^ k"
      by (simp add: field_simps abs_divide flip: abs_mult)
    also have "\<dots> < (2 ^ k / 2) / 2 ^ k"
      using assms(4) by (simp add: divide_strict_right_mono)
    finally show "\<bar>t / 2 ^ k - of_int m\<bar> < 1 / 2" by simp
  qed
  ultimately show ?thesis by (simp add: rnd53_def Let_def)
qed

lemma fl_mag_cert:
  assumes "0 \<le> q" and "k = 0 \<or> 2 ^ (52 + k) \<le> q * 2 ^ 1074" and "q * 2 ^ 1074 < 2 ^ (53 + k)"
    and "\<bar>q * 2 ^ 1074 - of_int m * 2 ^ k\<bar> < 2 ^ k / 2"
  shows "fl_mag q = (if (2::rat) ^ 2098 \<le> of_int m * 2 ^ k then None else Some (of_int m * 2 ^ k / 2 ^ 1074))"
proof -
  have "0 \<le> q * 2 ^ 1074" using assms(1) by (intro mult_nonneg_nonneg) auto
  then have "rnd53 (q * 2 ^ 1074) = of_int m * 2 ^ k"
    using assms(2-4) by (rule rnd53_cert)
  then show ?thesis unfolding fl_mag_def Let_def by (simp only:)
qed

subsection \<open>Shape, idempotence and range of the rounding\<close>

lemma rhe_le: "x \<le> of_int n \<Longrightarrow> round_half_even x \<le> n"
proof -
  assume a: "x \<le> of_int n"
  have "\<bar>of_int (round_half_even x) - x\<bar> \<le> 1 / 2" by (rule rhe_err)
  then have "(of_int (round_half_even x) :: rat) \<le> x + 1 / 2" by linarith
  then have "(of_int (round_half_even x) :: rat) < of_int n + 1" using a by linarith
  then have "(of_int (round_half_even x) :: rat) < of_int (n + 1)" by simp
  then have "round_half_even x < n + 1" by (simp only: of_int_less_iff)
  then show ?thesis by simp
qed

lemma rhe_lt_half: "x < of_int n + 1 / 2 \<Longrightarrow> round_half_even x \<le> n"
proof -
  assume a: "x < of_int n + 1 / 2"
  have "\<bar>of_int (round_half_even x) - x\<bar> \<le> 1 / 2" by (rule rhe_err)
  then have "(of_int (round_half_even x) :: rat) \<le> x + 1 / 2" by linarith
  then have "(of_int (round_half_even x) :: rat) < of_int n + 1" using a by linarith
  then have "(of_int (round_half_even x) :: rat) < of_int (n + 1)" by simp
  then have "round_half_even x < n + 1" by (simp only: of_int_less_iff)
  then show ?thesis by simp
qed

lemma rhe_ge: "of_int n \<le> x \<Longrightarrow> n \<le> round_half_even x"
proof -
  assume a: "of_int n \<le> x"
  have "\<bar>of_int (round_half_even x) - x\<bar> \<le> 1 / 2" by (rule rhe_err)
  then have "x - 1 / 2 \<le> (of_int (round_half_even x) :: rat)" by linarith
  then have "(of_int n :: rat) - 1 < of_int (round_half_even x)" using a by linarith
  then have "(of_int (n - 1) :: rat) < of_int (round_half_even x)" by simp
  then have "n - 1 < round_half_even x" by (simp only: of_int_less_iff)
  then show ?thesis by simp
qed

lemma floor_bitlen_upper:
  assumes "0 \<le> (t::rat)"
  shows "t < 2 ^ nat (bitlen \<lfloor>t\<rfloor>)"
proof (cases "\<lfloor>t\<rfloor> = 0")
  case True
  then have "t < 1" by (metis floor_less_iff of_int_0 of_int_1 zero_less_one order_refl floor_less_one)
  then show ?thesis using True by simp
next
  case False
  then have "0 < \<lfloor>t\<rfloor>" using assms by (simp add: order_less_le)
  then have "\<lfloor>t\<rfloor> < 2 ^ nat (bitlen \<lfloor>t\<rfloor>)" using bitlen_bounds by blast
  then show ?thesis by (simp add: floor_less_iff)
qed

lemma floor_bitlen_lower:
  assumes "0 < nat (bitlen \<lfloor>t\<rfloor> - 53)"
  shows "(2::rat) ^ (52 + nat (bitlen \<lfloor>t::rat\<rfloor> - 53)) \<le> t"
proof -
  have b: "53 < bitlen \<lfloor>t\<rfloor>" using assms by simp
  then have "0 < \<lfloor>t\<rfloor>" by (metis bitlen_eq_zero_iff bitlen_nonneg not_less order_less_le order_less_trans zero_less_numeral)
  then have "2 ^ nat (bitlen \<lfloor>t\<rfloor> - 1) \<le> \<lfloor>t\<rfloor>" using bitlen_bounds by blast
  moreover have "nat (bitlen \<lfloor>t\<rfloor> - 1) = 52 + nat (bitlen \<lfloor>t\<rfloor> - 53)" using b by simp
  ultimately have "2 ^ (52 + nat (bitlen \<lfloor>t\<rfloor> - 53)) \<le> \<lfloor>t\<rfloor>" by simp
  then show ?thesis by (simp add: le_floor_iff)
qed

lemma rnd53_shape:
  assumes "0 \<le> t"
  defines "k \<equiv> nat (bitlen \<lfloor>t\<rfloor> - 53)"
  defines "j \<equiv> round_half_even (t / 2 ^ k)"
  shows "rnd53 t = of_int j * 2 ^ k" and "0 \<le> j" and "j \<le> 2 ^ 53"
    and "k = 0 \<or> 2 ^ 52 \<le> j" and "\<bar>rnd53 t - t\<bar> \<le> 2 ^ k / 2"
    and "t < 2 ^ (53 + k)"
proof -
  show r: "rnd53 t = of_int j * 2 ^ k" by (simp add: rnd53_def Let_def k_def j_def)
  have "nat (bitlen \<lfloor>t\<rfloor>) \<le> 53 + k" by (simp add: k_def)
  then have "(2::rat) ^ nat (bitlen \<lfloor>t\<rfloor>) \<le> 2 ^ (53 + k)"
    by (intro power_increasing) auto
  then show up: "t < 2 ^ (53 + k)" using floor_bitlen_upper[OF assms(1)] by linarith
  have "0 \<le> t / 2 ^ k" using assms(1) by simp
  then have "(of_int 0 :: rat) \<le> t / 2 ^ k" by simp
  then show "0 \<le> j" unfolding j_def by (rule rhe_ge)
  have "t / 2 ^ k < 2 ^ (53 + k) / 2 ^ k" using up by (simp add: divide_strict_right_mono)
  then have "t / 2 ^ k \<le> of_int (2 ^ 53)" by (simp add: power_add)
  then show "j \<le> 2 ^ 53" unfolding j_def by (rule rhe_le)
  show "k = 0 \<or> 2 ^ 52 \<le> j"
  proof (cases "k = 0")
    case False
    then have "(2::rat) ^ (52 + k) \<le> t" unfolding k_def by (intro floor_bitlen_lower) simp
    then have "(2::rat) ^ (52 + k) / 2 ^ k \<le> t / 2 ^ k" by (simp add: divide_right_mono)
    then have "of_int (2 ^ 52) \<le> t / 2 ^ k" by (simp add: power_add)
    then have "2 ^ 52 \<le> j" unfolding j_def by (rule rhe_ge)
    then show ?thesis by simp
  qed simp
  have "\<bar>of_int j - t / 2 ^ k\<bar> \<le> 1 / 2" unfolding j_def by (rule rhe_err)
  then have "\<bar>of_int j - t / 2 ^ k\<bar> * 2 ^ k \<le> (1 / 2) * 2 ^ k"
    by (intro mult_right_mono) auto
  moreover have "\<bar>of_int j - t / 2 ^ k\<bar> * 2 ^ k = \<bar>of_int j * 2 ^ k - t\<bar>"
    by (simp add: field_simps flip: abs_mult abs_power2)
  ultimately show "\<bar>rnd53 t - t\<bar> \<le> 2 ^ k / 2" using r by simp
qed

lemma rnd53_nonneg: "0 \<le> t \<Longrightarrow> 0 \<le> rnd53 t"
  using rnd53_shape(1,2)[of t] by simp

lemma rnd53_idem:
  assumes "0 \<le> t"
  shows "rnd53 (rnd53 t) = rnd53 t"
proof -
  define k where "k = nat (bitlen \<lfloor>t\<rfloor> - 53)"
  define j where "j = round_half_even (t / 2 ^ k)"
  have r: "rnd53 t = of_int j * 2 ^ k" and j0: "0 \<le> j" and j53: "j \<le> 2 ^ 53"
    and lo: "k = 0 \<or> 2 ^ 52 \<le> j"
    using rnd53_shape[OF assms] unfolding k_def j_def by auto
  have r0: "0 \<le> rnd53 t" using assms by (rule rnd53_nonneg)
  show ?thesis
  proof (cases "j = 2 ^ 53")
    case True
    have e: "rnd53 t = of_int (2 ^ 52) * 2 ^ (Suc k)" using r True by simp
    have "rnd53 (rnd53 t) = of_int (2 ^ 52) * 2 ^ (Suc k)"
    proof (rule rnd53_cert[OF r0])
      show "Suc k = 0 \<or> 2 ^ (52 + Suc k) \<le> rnd53 t" using e by (simp add: power_add)
      show "rnd53 t < 2 ^ (53 + Suc k)" using e by (simp add: power_add)
      show "\<bar>rnd53 t - of_int (2 ^ 52) * 2 ^ Suc k\<bar> < 2 ^ Suc k / 2" using e by simp
    qed
    then show ?thesis using e by simp
  next
    case False
    then have jlt: "j < 2 ^ 53" using j53 by simp
    have "rnd53 (rnd53 t) = of_int j * 2 ^ k"
    proof (rule rnd53_cert[OF r0])
      show "k = 0 \<or> 2 ^ (52 + k) \<le> rnd53 t"
      proof (cases "k = 0")
        case False
        then have "2 ^ 52 \<le> j" using lo by simp
        then have "(of_int (2 ^ 52) :: rat) \<le> of_int j" by (simp only: of_int_le_iff)
        then have "(of_int (2 ^ 52) :: rat) * 2 ^ k \<le> of_int j * 2 ^ k"
          by (intro mult_right_mono) auto
        then show ?thesis using r by (simp add: power_add)
      qed simp
      have "(of_int j :: rat) < of_int (2 ^ 53)" using jlt by (simp only: of_int_less_iff)
      then have "(of_int j :: rat) * 2 ^ k < of_int (2 ^ 53) * 2 ^ k"
        by (intro mult_strict_right_mono) auto
      then show "rnd53 t < 2 ^ (53 + k)" using r by (simp add: power_add)
      show "\<bar>rnd53 t - of_int j * 2 ^ k\<bar> < 2 ^ k / 2" using r by simp
    qed
    then show ?thesis using r by simp
  qed
qed

lemma fl_mag_Some_iff:
  "fl_mag q = Some m \<longleftrightarrow> rnd53 (q * 2 ^ 1074) < 2 ^ 2098 \<and> m = rnd53 (q * 2 ^ 1074) / 2 ^ 1074"
  unfolding fl_mag_def Let_def by (auto simp only: not_le split: if_splits)

lemma fl_mag_idem:
  assumes "0 \<le> q" and "fl_mag q = Some m"
  shows "0 \<le> m \<and> fl_mag m = Some m"
proof -
  have t0: "0 \<le> q * 2 ^ 1074" using assms(1) by (intro mult_nonneg_nonneg) auto
  have lt: "rnd53 (q * 2 ^ 1074) < 2 ^ 2098" and m: "m = rnd53 (q * 2 ^ 1074) / 2 ^ 1074"
    using assms(2) unfolding fl_mag_Some_iff by blast+
  have c: "\<And>(x::rat) c. c \<noteq> 0 \<Longrightarrow> x / c * c = x" by simp
  have "m * 2 ^ 1074 = rnd53 (q * 2 ^ 1074)" unfolding m by (rule c) simp
  then have "rnd53 (m * 2 ^ 1074) = rnd53 (q * 2 ^ 1074)" using rnd53_idem[OF t0] by simp
  then have "fl_mag m = Some m" unfolding fl_mag_Some_iff using lt m by simp
  moreover have "0 \<le> m" unfolding m using rnd53_nonneg[OF t0] by (intro divide_nonneg_nonneg) auto
  ultimately show ?thesis by simp
qed

lemma rnd53_max_gen:
  assumes "0 \<le> t" and "rnd53 t < 2 ^ (53 + E)"
  shows "rnd53 t \<le> (2 ^ 53 - 1) * 2 ^ E"
proof -
  define k where "k = nat (bitlen \<lfloor>t\<rfloor> - 53)"
  define j where "j = round_half_even (t / 2 ^ k)"
  have r: "rnd53 t = of_int j * 2 ^ k" and j0: "0 \<le> j" and j53: "j \<le> 2 ^ 53"
    and lo: "k = 0 \<or> 2 ^ 52 \<le> j"
    using rnd53_shape[OF assms(1)] unfolding k_def j_def by auto
  have jr: "(of_int j :: rat) \<le> of_int (2 ^ 53)" using j53 by (simp only: of_int_le_iff)
  have pE: "(0::rat) < 2 ^ E" by simp
  show ?thesis
  proof (cases "k < E")
    case True
    then have "(2::rat) ^ Suc k \<le> 2 ^ E" by (intro power_increasing) auto
    then have a: "(2::rat) ^ 52 * 2 ^ Suc k \<le> 2 ^ 52 * 2 ^ E" by (intro mult_left_mono) auto
    have "of_int j * (2::rat) ^ k \<le> of_int (2 ^ 53) * 2 ^ k"
      using jr by (intro mult_right_mono) auto
    also have "\<dots> = 2 ^ 52 * 2 ^ Suc k" by simp
    also have "\<dots> \<le> 2 ^ 52 * 2 ^ E" by (rule a)
    also have "\<dots> \<le> (2 ^ 53 - 1) * 2 ^ E" by (intro mult_right_mono) auto
    finally show ?thesis using r by simp
  next
    case False
    then have k: "E \<le> k" by simp
    then have p: "(2::rat) ^ E \<le> 2 ^ k" by (intro power_increasing) auto
    have b: "rnd53 t < 2 ^ 53 * 2 ^ E" using assms(2) by (simp only: power_add)
    have "j \<noteq> 2 ^ 53"
    proof
      assume "j = 2 ^ 53"
      then have "rnd53 t = 2 ^ 53 * 2 ^ k" using r by simp
      moreover have "(2::rat) ^ 53 * 2 ^ E \<le> 2 ^ 53 * 2 ^ k" using p by (intro mult_left_mono) auto
      ultimately show False using b by linarith
    qed
    then have j1: "j \<le> 2 ^ 53 - 1" using j53 by simp
    have "k = E"
    proof (rule ccontr)
      assume "k \<noteq> E"
      then have "Suc E \<le> k" using k by simp
      then have "(2::rat) ^ Suc E \<le> 2 ^ k" by (intro power_increasing) auto
      moreover have "2 ^ 52 \<le> j" using lo \<open>Suc E \<le> k\<close> by auto
      then have "(of_int (2 ^ 52) :: rat) \<le> of_int j" by (simp only: of_int_le_iff)
      ultimately have "(of_int (2 ^ 52) :: rat) * 2 ^ Suc E \<le> of_int j * 2 ^ k"
        by (intro mult_mono) auto
      moreover have "(of_int (2 ^ 52) :: rat) * 2 ^ Suc E = 2 ^ 53 * 2 ^ E" by simp
      ultimately show False using b r by linarith
    qed
    moreover have "(of_int j :: rat) \<le> of_int (2 ^ 53 - 1)" using j1 by (simp only: of_int_le_iff)
    then have "(of_int j :: rat) * 2 ^ E \<le> of_int (2 ^ 53 - 1) * 2 ^ E"
      by (intro mult_right_mono) auto
    ultimately show ?thesis using r by simp
  qed
qed

lemma rnd53_bound:
  assumes "0 \<le> t" and "t < 2 ^ (53 + E)"
  shows "rnd53 t \<le> 2 ^ (53 + E)" and "\<bar>rnd53 t - t\<bar> \<le> 2 ^ E / 2"
proof -
  define k where "k = nat (bitlen \<lfloor>t\<rfloor> - 53)"
  define j where "j = round_half_even (t / 2 ^ k)"
  have r: "rnd53 t = of_int j * 2 ^ k" and j0: "0 \<le> j" and j53: "j \<le> 2 ^ 53"
    and err: "\<bar>rnd53 t - t\<bar> \<le> 2 ^ k / 2"
    using rnd53_shape[OF assms(1)] unfolding k_def j_def by auto
  have "\<lfloor>t\<rfloor> < 2 ^ (53 + E)" using assms(2) by (simp add: floor_less_iff)
  moreover have "0 \<le> \<lfloor>t\<rfloor>" using assms(1) by simp
  ultimately have "bitlen \<lfloor>t\<rfloor> \<le> int (53 + E)" by (intro bitlen_le)
  then have kE: "k \<le> E" unfolding k_def by simp
  then have p: "(2::rat) ^ k \<le> 2 ^ E" by (intro power_increasing) auto
  have jr: "(of_int j :: rat) \<le> of_int (2 ^ 53)" using j53 by (simp only: of_int_le_iff)
  have "of_int j * (2::rat) ^ k \<le> of_int (2 ^ 53) * 2 ^ E"
    using jr p j0 by (intro mult_mono) auto
  then show "rnd53 t \<le> 2 ^ (53 + E)" using r by (simp add: power_add)
  show "\<bar>rnd53 t - t\<bar> \<le> 2 ^ E / 2" using err p by linarith
qed

lemma rnd53_no_overflow:
  assumes "0 \<le> t" and "t < (2 ^ 53 - 1) * 2 ^ E + 2 ^ E / 2"
  shows "rnd53 t < 2 ^ (53 + E)"
proof -
  define k where "k = nat (bitlen \<lfloor>t\<rfloor> - 53)"
  define j where "j = round_half_even (t / 2 ^ k)"
  have r: "rnd53 t = of_int j * 2 ^ k" and j0: "0 \<le> j" and j53: "j \<le> 2 ^ 53"
    using rnd53_shape[OF assms(1)] unfolding k_def j_def by auto
  have pE: "(0::rat) < 2 ^ E" by simp
  have "(2 ^ 53 - 1) * 2 ^ E + 2 ^ E / 2 < (2::rat) ^ 53 * 2 ^ E"
    using pE by (simp add: algebra_simps)
  then have "t < 2 ^ 53 * 2 ^ E" using assms(2) by linarith
  then have tlt: "t < 2 ^ (53 + E)" by (simp only: power_add)
  then have "\<lfloor>t\<rfloor> < 2 ^ (53 + E)" by (simp add: floor_less_iff)
  moreover have "0 \<le> \<lfloor>t\<rfloor>" using assms(1) by simp
  ultimately have "bitlen \<lfloor>t\<rfloor> \<le> int (53 + E)" by (intro bitlen_le)
  then have kE: "k \<le> E" unfolding k_def by simp
  have jr: "(of_int j :: rat) \<le> of_int (2 ^ 53)" using j53 by (simp only: of_int_le_iff)
  show ?thesis
  proof (cases "k = E")
    case True
    have "t / 2 ^ E < ((2 ^ 53 - 1) * 2 ^ E + 2 ^ E / 2) / 2 ^ E"
      using assms(2) by (intro divide_strict_right_mono) auto
    also have "\<dots> = of_int (2 ^ 53 - 1) + 1 / 2" by (simp add: field_simps)
    finally have "round_half_even (t / 2 ^ E) \<le> 2 ^ 53 - 1" by (rule rhe_lt_half)
    then have "j < 2 ^ 53" unfolding j_def True by simp
    then have "(of_int j :: rat) < of_int (2 ^ 53)" by (simp only: of_int_less_iff)
    then have "(of_int j :: rat) * 2 ^ E < of_int (2 ^ 53) * 2 ^ E"
      by (intro mult_strict_right_mono) auto
    then show ?thesis using r True by (simp add: power_add)
  next
    case False
    then have "k < E" using kE by simp
    then have "(2::rat) ^ k < 2 ^ E" by (intro power_strict_increasing) auto
    then have "of_int (2 ^ 53) * (2::rat) ^ k < of_int (2 ^ 53) * 2 ^ E"
      by (intro mult_strict_left_mono) auto
    moreover have "of_int j * (2::rat) ^ k \<le> of_int (2 ^ 53) * 2 ^ k"
      using jr by (intro mult_right_mono) auto
    ultimately have "of_int j * (2::rat) ^ k < of_int (2 ^ 53) * 2 ^ E" by linarith
    then show ?thesis using r by (simp add: power_add)
  qed
qed

subsection \<open>Doubles: the largest value, and operators that keep values representable\<close>

lemma pow_2098: "(2::rat) ^ 2098 = 2 ^ (53 + 2045)"
  by simp

lemma fl_mag_max:
  assumes "0 \<le> q" and "fl_mag q = Some m"
  shows "m * 2 ^ 1074 \<le> (2 ^ 53 - 1) * 2 ^ 2045"
proof -
  have t0: "0 \<le> q * 2 ^ 1074" using assms(1) by (intro mult_nonneg_nonneg) auto
  have lt: "rnd53 (q * 2 ^ 1074) < 2 ^ 2098" and m: "m = rnd53 (q * 2 ^ 1074) / 2 ^ 1074"
    using assms(2) unfolding fl_mag_Some_iff by blast+
  have c: "\<And>(x::rat) c. c \<noteq> 0 \<Longrightarrow> x / c * c = x" by simp
  have e: "m * 2 ^ 1074 = rnd53 (q * 2 ^ 1074)" unfolding m by (rule c) simp
  have "rnd53 (q * 2 ^ 1074) < 2 ^ (53 + 2045)" using lt by (simp only: pow_2098)
  then have "rnd53 (q * 2 ^ 1074) \<le> (2 ^ 53 - 1) * 2 ^ 2045" by (rule rnd53_max_gen[OF t0])
  then show ?thesis by (simp only: e)
qed

lemma fl_mag_total:
  assumes "0 \<le> q" and "q * 2 ^ 1074 < (2 ^ 53 - 1) * 2 ^ 2045 + 2 ^ 2045 / 2"
  shows "\<exists>m. fl_mag q = Some m"
proof -
  have t0: "0 \<le> q * 2 ^ 1074" using assms(1) by (intro mult_nonneg_nonneg) auto
  have "rnd53 (q * 2 ^ 1074) < 2 ^ (53 + 2045)" using t0 assms(2) by (rule rnd53_no_overflow)
  then have "rnd53 (q * 2 ^ 1074) < 2 ^ 2098" by (simp only: pow_2098)
  then show ?thesis unfolding fl_mag_Some_iff by blast
qed

lemma round_decimal_close:
  fixes m :: rat
  shows "\<bar>of_int (round_half_even (m * 10 ^ n)) / 10 ^ n - m\<bar> \<le> 1 / 2"
proof -
  have p: "(1::rat) \<le> 10 ^ n" by simp
  have "\<bar>of_int (round_half_even (m * 10 ^ n)) - m * 10 ^ n\<bar> \<le> 1 / 2" by (rule rhe_err)
  then have "\<bar>of_int (round_half_even (m * 10 ^ n)) - m * 10 ^ n\<bar> / 10 ^ n \<le> (1 / 2) / 10 ^ n"
    by (intro divide_right_mono) auto
  moreover have "of_int (round_half_even (m * 10 ^ n)) / 10 ^ n - m
      = (of_int (round_half_even (m * 10 ^ n)) - m * 10 ^ n) / 10 ^ n"
    by (simp add: field_simps)
  then have "\<bar>of_int (round_half_even (m * 10 ^ n)) - m * 10 ^ n\<bar> / 10 ^ n
      = \<bar>of_int (round_half_even (m * 10 ^ n)) / 10 ^ n - m\<bar>"
    by (simp only: abs_divide) simp
  moreover have "(1 / 2) / 10 ^ n \<le> (1 / 2 :: rat)"
    using p by (simp add: field_simps)
  ultimately show ?thesis by linarith
qed

lemma round_decimal_total:
  assumes "0 \<le> m" and "fl_mag m = Some m"
  shows "\<exists>r. fl_mag (of_int (round_half_even (m * 10 ^ n)) / 10 ^ n) = Some r
             \<and> 0 \<le> r \<and> fl_mag r = Some r"
proof -
  define z :: rat where "z = of_int (round_half_even (m * 10 ^ n)) / 10 ^ n"
  define C :: rat where "C = 2 ^ 1074"
  define D :: rat where "D = 2 ^ 2045"
  have C0: "0 < C" unfolding C_def by simp
  have CD: "C < D" unfolding C_def D_def by (intro power_strict_increasing) auto
  have "(of_int 0 :: rat) \<le> m * 10 ^ n" using assms(1) by simp
  then have "0 \<le> round_half_even (m * 10 ^ n)" by (rule rhe_ge)
  then have z0: "0 \<le> z" unfolding z_def by simp
  have "\<bar>z - m\<bar> \<le> 1 / 2" unfolding z_def by (rule round_decimal_close)
  then have "z \<le> m + 1 / 2" by linarith
  then have "z * C \<le> (m + 1 / 2) * C" using C0 by (intro mult_right_mono) auto
  moreover have "m * C \<le> (2 ^ 53 - 1) * D"
    unfolding C_def D_def using assms by (rule fl_mag_max)
  ultimately have "z * C < (2 ^ 53 - 1) * D + D / 2"
    using CD by (simp add: algebra_simps)
  then obtain r where r: "fl_mag z = Some r"
    unfolding C_def D_def using fl_mag_total[OF z0] by blast
  then show ?thesis using fl_mag_idem[OF z0 r] unfolding z_def by blast
qed

lemma py_round_total:
  assumes "valid_double x"
  shows "\<exists>y. py_round x n = Inr y \<and> valid_double y"
proof (cases x)
  case (Fin s m)
  then have m: "0 \<le> m" "fl_mag m = Some m" using assms by auto
  show ?thesis
  proof (cases "323 < n")
    case True
    then show ?thesis using Fin assms by (simp add: py_round_def)
  next
    case False
    obtain r where "fl_mag (of_int (round_half_even (m * 10 ^ n)) / 10 ^ n) = Some r"
      "0 \<le> r" "fl_mag r = Some r"
      using round_decimal_total[OF m] by blast
    then show ?thesis using Fin False by (simp add: py_round_def)
  qed
qed (simp_all add: py_round_def)

lemma fl_mag_0: "fl_mag 0 = Some 0"
  using fl_mag_cert[of 0 0 0] by simp

lemma mk_double_valid: "0 \<le> q \<Longrightarrow> valid_double (mk_double s q)"
  using fl_mag_idem[of q] by (auto simp: mk_double_def split: option.splits)

lemma fmul_valid: "valid_double a \<Longrightarrow> valid_double b \<Longrightarrow> valid_double (fmul a b)"
  by (cases a; cases b) (auto simp: mk_double_valid)

lemma fdiv_valid:
  "valid_double a \<Longrightarrow> valid_double b \<Longrightarrow> fdiv a b = Inr c \<Longrightarrow> valid_double c"
  by (cases a; cases b) (auto simp: mk_double_valid fl_mag_0 split: if_splits)

subsection \<open>The error of one rounding\<close>

lemma fl_mag_err:
  assumes "0 \<le> q" and "q < 2 ^ n" and "n \<le> 1023"
  shows "\<exists>m. fl_mag q = Some m \<and> 0 \<le> m \<and> \<bar>m - q\<bar> \<le> 2 ^ n / 2 ^ 54"
proof -
  define C :: rat where "C = 2 ^ 1074"
  define X :: rat where "X = 2 ^ 1021"
  define r where "r = rnd53 (q * C)"
  have C0: "0 < C" unfolding C_def by simp
  have X0: "0 < X" unfolding X_def by simp
  have CX: "C = 2 ^ 53 * X" unfolding C_def X_def by (simp only: power_add [symmetric]) simp
  have t0: "0 \<le> q * C" using assms(1) C0 by simp
  have "q * C < 2 ^ n * C" using assms(2) C0 by (intro mult_strict_right_mono)
  also have "2 ^ n * C = 2 ^ (53 + (n + 1021))"
    unfolding C_def by (simp only: power_add [symmetric]) simp
  finally have tlt: "q * C < 2 ^ (53 + (n + 1021))" .
  have rle: "r \<le> 2 ^ (53 + (n + 1021))" and err: "\<bar>r - q * C\<bar> \<le> 2 ^ (n + 1021) / 2"
    unfolding r_def using rnd53_bound[OF t0 tlt] by blast+
  have "53 + (n + 1021) < 2098" using assms(3) by simp
  then have "(2::rat) ^ (53 + (n + 1021)) < 2 ^ 2098" by (intro power_strict_increasing) auto
  then have rlt: "r < 2 ^ 2098" using rle by linarith
  have r0: "0 \<le> r" unfolding r_def using t0 by (rule rnd53_nonneg)
  have fl: "fl_mag q = Some (r / C)"
    unfolding fl_mag_Some_iff using rlt by (simp add: r_def C_def)
  have e: "r / C - q = (r - q * C) / C" using C0 by (simp add: field_simps)
  have "\<bar>r / C - q\<bar> = \<bar>r - q * C\<bar> / C" unfolding e using C0 by (simp add: abs_divide)
  also have "\<dots> \<le> (2 ^ (n + 1021) / 2) / C" using err C0 by (intro divide_right_mono) auto
  also have "(2 ^ (n + 1021) / 2) / C = (2 ^ n * X / 2) / (2 ^ 53 * X)"
    unfolding CX by (simp only: power_add X_def)
  also have "\<dots> = 2 ^ n / 2 ^ 54" using X0 by simp
  finally have "\<bar>r / C - q\<bar> \<le> 2 ^ n / 2 ^ 54" .
  moreover have "0 \<le> r / C" using r0 C0 by simp
  ultimately show ?thesis using fl by blast
qed

lemma fl_mag_rel_err:
  assumes "0 \<le> q" and "q < 2 ^ 1023"
  shows "\<exists>m. fl_mag q = Some m \<and> 0 \<le> m \<and> \<bar>m - q\<bar> \<le> q / 2 ^ 53 + 1 / 2 ^ 54"
proof (cases "q < 1")
  case True
  then have "q < 2 ^ 0" by simp
  then obtain m where m: "fl_mag q = Some m" "0 \<le> m" "\<bar>m - q\<bar> \<le> 2 ^ 0 / 2 ^ 54"
    using fl_mag_err[OF assms(1), of 0] by auto
  have "0 \<le> q / 2 ^ 53" using assms(1) by simp
  then have "\<bar>m - q\<bar> \<le> q / 2 ^ 53 + 1 / 2 ^ 54" using m(3) by simp
  then show ?thesis using m(1,2) by blast
next
  case False
  define n where "n = nat (bitlen \<lfloor>q\<rfloor>)"
  have f1: "1 \<le> \<lfloor>q\<rfloor>" using False by (simp add: le_floor_iff)
  then have f0: "0 < \<lfloor>q\<rfloor>" by simp
  have up: "q < 2 ^ n" unfolding n_def using assms(1) by (rule floor_bitlen_upper)
  have "\<lfloor>q\<rfloor> < 2 ^ 1023" using assms(2) by (simp add: floor_less_iff)
  then have "bitlen \<lfloor>q\<rfloor> \<le> int 1023" using f0 by (intro bitlen_le) auto
  then have n1023: "n \<le> 1023" unfolding n_def by simp
  have bl: "1 \<le> bitlen \<lfloor>q\<rfloor>" using bitlen_ge[of 0 "\<lfloor>q\<rfloor>"] f1 by simp
  then have n1: "n = Suc (nat (bitlen \<lfloor>q\<rfloor> - 1))" unfolding n_def by simp
  have "2 ^ nat (bitlen \<lfloor>q\<rfloor> - 1) \<le> \<lfloor>q\<rfloor>" using bitlen_bounds[OF f0] by blast
  then have "(2::rat) ^ nat (bitlen \<lfloor>q\<rfloor> - 1) \<le> q" by (simp add: le_floor_iff)
  then have lo: "(2::rat) ^ n \<le> 2 * q" unfolding n1 by simp
  obtain m where m: "fl_mag q = Some m" "0 \<le> m" "\<bar>m - q\<bar> \<le> 2 ^ n / 2 ^ 54"
    using fl_mag_err[OF assms(1) up n1023] by blast
  have "(2::rat) ^ n / 2 ^ 54 \<le> 2 * q / 2 ^ 54" using lo by (intro divide_right_mono) auto
  also have "\<dots> = q / 2 ^ 53" by simp
  finally have "\<bar>m - q\<bar> \<le> q / 2 ^ 53 + 1 / 2 ^ 54" using m(3) by simp
  then show ?thesis using m(1,2) by blast
qed

lemma round_decimal_err:
  fixes m :: rat
  shows "\<bar>of_int (round_half_even (m * 10 ^ n)) / 10 ^ n - m\<bar> \<le> 1 / (2 * 10 ^ n)"
proof -
  have "\<bar>of_int (round_half_even (m * 10 ^ n)) - m * 10 ^ n\<bar> \<le> 1 / 2" by (rule rhe_err)
  then have "\<bar>of_int (round_half_even (m * 10 ^ n)) - m * 10 ^ n\<bar> / 10 ^ n \<le> (1 / 2) / 10 ^ n"
    by (intro divide_right_mono) auto
  moreover have "of_int (round_half_even (m * 10 ^ n)) / 10 ^ n - m
      = (of_int (round_half_even (m * 10 ^ n)) - m * 10 ^ n) / 10 ^ n"
    by (simp add: field_simps)
  then have "\<bar>of_int (round_half_even (m * 10 ^ n)) - m * 10 ^ n\<bar> / 10 ^ n
      = \<bar>of_int (round_half_even (m * 10 ^ n)) / 10 ^ n - m\<bar>"
    by (simp only: abs_divide) simp
  ultimately show ?thesis by simp
qed

subsection \<open>Three roundings in a row: the error of a round trip\<close>

lemma scaled_diff_bound:
  fixes u v k e K :: rat
  assumes "\<bar>u - v\<bar> \<le> e" and "0 \<le> k" and "k \<le> K" and "0 \<le> e"
  shows "\<bar>u * k - v * k\<bar> \<le> e * K"
proof -
  have "\<bar>u * k - v * k\<bar> = \<bar>u - v\<bar> * k"
    using assms(2) by (simp add: abs_mult flip: left_diff_distrib)
  also have "\<dots> \<le> e * K" using assms by (intro mult_mono) auto
  finally show ?thesis .
qed

lemma rounding_error_coarse:
  fixes x a A B :: rat
  assumes "0 \<le> x" and "x \<le> A * a + B"
  shows "0 \<le> x / 2 ^ 53 + 1 / 2 ^ 54"
    and "x / 2 ^ 53 + 1 / 2 ^ 54 \<le> a * (A / 1000000000000000) + (B + 1) / 1000000000000000"
proof -
  show "0 \<le> x / 2 ^ 53 + 1 / 2 ^ 54" using assms(1) by simp
  have "x / 2 ^ 53 + 1 / 2 ^ 54 \<le> x / 1000000000000000 + 1 / 1000000000000000"
    using assms(1) by simp
  also have "\<dots> \<le> (A * a + B) / 1000000000000000 + 1 / 1000000000000000"
    using assms(2) by (simp add: divide_right_mono)
  also have "\<dots> = a * (A / 1000000000000000) + (B + 1) / 1000000000000000"
    by (simp add: field_simps)
  finally show "x / 2 ^ 53 + 1 / 2 ^ 54 \<le> a * (A / 1000000000000000) + (B + 1) / 1000000000000000" .
qed

lemma round_trip_generic:
  fixes a rho kap :: rat
  assumes "0 \<le> a" and "a \<le> 10 ^ 300" and "0 \<le> rho" and "rho \<le> 2"
    and "0 \<le> kap" and "kap \<le> 193" and "\<bar>rho * kap - 1\<bar> \<le> 29 / 10000"
  shows "\<exists>y c p. fl_mag (a * rho) = Some y
           \<and> fl_mag (of_int (round_half_even (y * 10 ^ 2)) / 10 ^ 2) = Some c
           \<and> fl_mag (c * kap) = Some p
           \<and> \<bar>p - a\<bar> \<le> 3 / 1000 * a + 1"
proof -
  define W :: rat where "W = 2 ^ 1023"
  have "(10 :: rat) ^ 300 * 4096 \<le> 2 ^ 1023" by simp
  then have aW: "a * 4096 \<le> W" unfolding W_def using assms(2) by linarith
  have W1: "4096 \<le> W" unfolding W_def by simp
  have ar0: "0 \<le> a * rho" using assms(1,3) by simp
  have "a * rho \<le> a * 2" using assms(1,4) by (intro mult_left_mono)
  then have ar: "a * rho \<le> 2 * a + 0" by simp
  then have arW: "a * rho < W" using aW W1 assms(1) by linarith
  define dy where "dy = a * rho / 2 ^ 53 + 1 / 2 ^ 54"
  have dy: "0 \<le> dy" "dy \<le> a * 2 / 1000000000000000 + 1 / 1000000000000000"
    unfolding dy_def using rounding_error_coarse[OF ar0 ar] by simp_all
  obtain y where y: "fl_mag (a * rho) = Some y" "0 \<le> y" "\<bar>y - a * rho\<bar> \<le> dy"
    unfolding dy_def using fl_mag_rel_err[OF ar0] arW unfolding W_def by blast
  define z :: rat where "z = of_int (round_half_even (y * 10 ^ 2)) / 10 ^ 2"
  have "(of_int 0 :: rat) \<le> y * 10 ^ 2" using y(2) by simp
  then have "0 \<le> round_half_even (y * 10 ^ 2)" by (rule rhe_ge)
  then have z0: "0 \<le> z" unfolding z_def by simp
  have "\<bar>z - y\<bar> \<le> 1 / (2 * 10 ^ 2)" unfolding z_def by (rule round_decimal_err)
  then have zy: "\<bar>z - y\<bar> \<le> 1 / 200" by simp
  have zle: "z \<le> 3 * a + 1" using zy y(3) dy ar assms(1) by linarith
  then have zW: "z < W" using aW W1 assms(1) by linarith
  define dz where "dz = z / 2 ^ 53 + 1 / 2 ^ 54"
  have dz: "0 \<le> dz" "dz \<le> a * 3 / 1000000000000000 + 2 / 1000000000000000"
    unfolding dz_def using rounding_error_coarse[OF z0 zle] by simp_all
  obtain c where c: "fl_mag z = Some c" "0 \<le> c" "\<bar>c - z\<bar> \<le> dz"
    unfolding dz_def using fl_mag_rel_err[OF z0] zW unfolding W_def by blast
  have cle: "c \<le> 4 * a + 2" using c(3) dz zle assms(1) by linarith
  have ck0: "0 \<le> c * kap" using c(2) assms(5) by simp
  have "c * kap \<le> c * 193" using c(2) assms(6) by (intro mult_left_mono)
  then have ck: "c * kap \<le> 772 * a + 386" using cle by linarith
  then have ckW: "c * kap < W" using aW W1 assms(1) by linarith
  define dp where "dp = c * kap / 2 ^ 53 + 1 / 2 ^ 54"
  have dp: "0 \<le> dp" "dp \<le> a * 772 / 1000000000000000 + 387 / 1000000000000000"
    unfolding dp_def using rounding_error_coarse[OF ck0 ck] by simp_all
  obtain p where p: "fl_mag (c * kap) = Some p" "\<bar>p - c * kap\<bar> \<le> dp"
    unfolding dp_def using fl_mag_rel_err[OF ck0] ckW unfolding W_def by blast
  have t1: "\<bar>c * kap - z * kap\<bar> \<le> dz * 193"
    using c(3) assms(5,6) dz(1) by (rule scaled_diff_bound)
  have t2: "\<bar>z * kap - y * kap\<bar> \<le> 1 / 200 * 193"
    using zy assms(5,6) by (rule scaled_diff_bound) simp
  have t3: "\<bar>y * kap - a * rho * kap\<bar> \<le> dy * 193"
    using y(3) assms(5,6) dy(1) by (rule scaled_diff_bound)
  have "a * rho * kap - a = a * (rho * kap - 1)" by (simp add: algebra_simps)
  then have "\<bar>a * rho * kap - a\<bar> = a * \<bar>rho * kap - 1\<bar>"
    using assms(1) by (simp add: abs_mult)
  also have "\<dots> \<le> a * (29 / 10000)" using assms(1,7) by (intro mult_left_mono)
  finally have t4: "\<bar>a * rho * kap - a\<bar> \<le> a * 29 / 10000" by simp
  have "\<bar>p - a\<bar> \<le> dp + dz * 193 + 1 / 200 * 193 + dy * 193 + a * 29 / 10000"
    using p(2) t1 t2 t3 t4 by linarith
  then have "\<bar>p - a\<bar> \<le> 3 / 1000 * a + 1" using dp(2) dz(2) dy(2) assms(1) by linarith
  then show ?thesis using y(1) c(1) p(1) unfolding z_def by blast
qed

subsection \<open>The rounding returns a nearest double\<close>

lemma rhe_nearest: "\<bar>of_int (round_half_even x) - x\<bar> \<le> \<bar>of_int i - x\<bar>"
proof (cases "i = round_half_even x")
  case True
  then show ?thesis by simp
next
  case False
  then have "1 \<le> \<bar>i - round_half_even x\<bar>" by simp
  then have "(of_int 1 :: rat) \<le> of_int \<bar>i - round_half_even x\<bar>" by (simp only: of_int_le_iff)
  then have "(1 :: rat) \<le> \<bar>of_int i - of_int (round_half_even x)\<bar>" by simp
  moreover have "\<bar>of_int (round_half_even x) - x\<bar> \<le> 1 / 2" by (rule rhe_err)
  ultimately show ?thesis by linarith
qed

lemma rnd53_nearest_multiple:
  assumes "0 \<le> t"
  shows "\<bar>rnd53 t - t\<bar> \<le> \<bar>of_int i * 2 ^ nat (bitlen \<lfloor>t\<rfloor> - 53) - t\<bar>"
proof -
  define k where "k = nat (bitlen \<lfloor>t\<rfloor> - 53)"
  define j where "j = round_half_even (t / 2 ^ k)"
  have r: "rnd53 t = of_int j * 2 ^ k" by (simp add: rnd53_def Let_def k_def j_def)
  have s: "\<And>u :: rat. \<bar>u * 2 ^ k - t\<bar> = \<bar>u - t / 2 ^ k\<bar> * 2 ^ k"
  proof -
    fix u :: rat
    have "u * 2 ^ k - t = (u - t / 2 ^ k) * 2 ^ k" by (simp add: field_simps)
    then show "\<bar>u * 2 ^ k - t\<bar> = \<bar>u - t / 2 ^ k\<bar> * 2 ^ k" by (simp add: abs_mult)
  qed
  have "\<bar>of_int j - t / 2 ^ k\<bar> \<le> \<bar>of_int i - t / 2 ^ k\<bar>" unfolding j_def by (rule rhe_nearest)
  then have "\<bar>of_int j - t / 2 ^ k\<bar> * 2 ^ k \<le> \<bar>of_int i - t / 2 ^ k\<bar> * 2 ^ k"
    by (intro mult_right_mono) auto
  then have "\<bar>of_int j * 2 ^ k - t\<bar> \<le> \<bar>of_int i * 2 ^ k - t\<bar>" by (simp only: s)
  then show ?thesis using r unfolding k_def by simp
qed

lemma rnd53_nearest:
  assumes "0 \<le> t" and "0 \<le> t'" and "rnd53 t' = t'"
  shows "\<bar>rnd53 t - t\<bar> \<le> \<bar>t' - t\<bar>"
proof -
  define k where "k = nat (bitlen \<lfloor>t\<rfloor> - 53)"
  define k' where "k' = nat (bitlen \<lfloor>t'\<rfloor> - 53)"
  define j' where "j' = round_half_even (t' / 2 ^ k')"
  have r': "t' = of_int j' * 2 ^ k'" and j'53: "j' \<le> 2 ^ 53" and j'0: "0 \<le> j'"
    using rnd53_shape(1-3)[OF assms(2)] assms(3) unfolding k'_def j'_def by auto
  have near: "\<And>i. \<bar>rnd53 t - t\<bar> \<le> \<bar>of_int i * 2 ^ k - t\<bar>"
    unfolding k_def using assms(1) by (rule rnd53_nearest_multiple)
  show ?thesis
  proof (cases "k \<le> k'")
    case True
    then have "(2::rat) ^ k' = 2 ^ (k' - k) * 2 ^ k" by (simp flip: power_add)
    then have "t' = of_int (j' * 2 ^ (k' - k)) * 2 ^ k" using r' by simp
    then show ?thesis using near[of "j' * 2 ^ (k' - k)"] by simp
  next
    case False
    then have kk: "Suc k' \<le> k" by simp
    then have "0 < nat (bitlen \<lfloor>t\<rfloor> - 53)" unfolding k_def by simp
    then have lo: "(2::rat) ^ (52 + k) \<le> t" unfolding k_def by (rule floor_bitlen_lower)
    have "(of_int j' :: rat) \<le> of_int (2 ^ 53)" using j'53 by (simp only: of_int_le_iff)
    then have "t' \<le> of_int (2 ^ 53) * 2 ^ k'" unfolding r' by (intro mult_right_mono) auto
    also have "\<dots> = 2 ^ 52 * 2 ^ Suc k'" by simp
    also have "\<dots> \<le> 2 ^ 52 * 2 ^ k" using kk by (intro mult_left_mono power_increasing) auto
    finally have t'le: "t' \<le> 2 ^ (52 + k)" by (simp add: power_add)
    have "\<bar>rnd53 t - t\<bar> \<le> \<bar>of_int (2 ^ 52) * 2 ^ k - t\<bar>" by (rule near)
    also have "of_int (2 ^ 52) * 2 ^ k = (2::rat) ^ (52 + k)" by (simp add: power_add)
    finally show ?thesis using lo t'le by linarith
  qed
qed

lemma fl_mag_nearest:
  assumes "0 \<le> q" and "fl_mag q = Some m" and "0 \<le> m'" and "fl_mag m' = Some m'"
  shows "\<bar>m - q\<bar> \<le> \<bar>m' - q\<bar>"
proof -
  define C :: rat where "C = 2 ^ 1074"
  have C0: "0 < C" unfolding C_def by simp
  have t0: "0 \<le> q * C" using assms(1) C0 by simp
  have t'0: "0 \<le> m' * C" using assms(3) C0 by simp
  have m: "m = rnd53 (q * C) / C"
    using assms(2) unfolding fl_mag_Some_iff C_def by blast
  have "m' = rnd53 (m' * C) / C"
    using assms(4) unfolding fl_mag_Some_iff C_def by blast
  then have fp: "rnd53 (m' * C) = m' * C" using C0 by (simp add: field_simps)
  have "\<bar>rnd53 (q * C) - q * C\<bar> \<le> \<bar>m' * C - q * C\<bar>"
    using t0 t'0 fp by (rule rnd53_nearest)
  then have "\<bar>rnd53 (q * C) - q * C\<bar> / C \<le> \<bar>m' * C - q * C\<bar> / C"
    using C0 by (intro divide_right_mono) auto
  moreover have "\<bar>rnd53 (q * C) - q * C\<bar> / C = \<bar>m - q\<bar>"
  proof -
    have "m - q = (rnd53 (q * C) - q * C) / C" unfolding m using C0 by (simp add: field_simps)
    then show ?thesis using C0 by (simp add: abs_divide)
  qed
  moreover have "\<bar>m' * C - q * C\<bar> / C = \<bar>m' - q\<bar>"
  proof -
    have "m' - q = (m' * C - q * C) / C" using C0 by (simp add: field_simps)
    then show ?thesis using C0 by (simp add: abs_divide)
  qed
  ultimately show ?thesis by simp
qed

section \<open>The rate table\<close>

lemma fl_mag_1: "fl_mag 1 = Some 1"
  using fl_mag_cert[of 1 1022 4503599627370496] by simp

lemma fl_mag_092: "fl_mag (23 / 25) = Some (8286623314361713 / 9007199254740992)"
  using fl_mag_cert[of "23 / 25" 1021 8286623314361713] by simp

lemma fl_mag_078: "fl_mag (39 / 50) = Some (3512807709348987 / 4503599627370496)"
  using fl_mag_cert[of "39 / 50" 1021 7025615418697974] by simp

lemma fl_mag_150: "fl_mag 150 = Some 150"
  using fl_mag_cert[of 150 1029 5277655813324800] by simp

lemma fallback_rates_eval:
  "fallback_rates =
     [(''USD'', Fin False 1),
      (''EUR'', Fin False (8286623314361713 / 9007199254740992)),
      (''GBP'', Fin False (3512807709348987 / 4503599627370496)),
      (''JPY'', Fin False 150)]"
  by (simp add: fallback_rates_def double_of_literal_def mk_double_def
      fl_mag_1 fl_mag_092 fl_mag_078 fl_mag_150)

lemma double_of_literal_valid: "0 \<le> q \<Longrightarrow> valid_double (double_of_literal q)"
  by (simp add: double_of_literal_def mk_double_valid)

lemma rates_entry:
  assumes "(c, r) \<in> set fallback_rates"
  shows "\<exists>m. r = Fin False m \<and> 0 < m \<and> fl_mag m = Some m"
proof -
  have v: "valid_double r"
    using assms by (auto simp: fallback_rates_def double_of_literal_valid)
  have "\<exists>m. r = Fin False m \<and> 0 < m"
    using assms by (auto simp: fallback_rates_eval)
  then show ?thesis using v by auto
qed

lemma rates_lookup:
  "map_of fallback_rates c = Some r \<Longrightarrow> \<exists>m. r = Fin False m \<and> 0 < m \<and> fl_mag m = Some m"
  by (rule rates_entry[of c]) (rule map_of_SomeD)

lemma fmul_one: "valid_double a \<Longrightarrow> fmul a (Fin False 1) = a"
  by (cases a) (auto simp: mk_double_def)

lemma rhe_numeral: "round_half_even (numeral n) = numeral n"
  using rhe_of_int[of "numeral n"] by simp

lemma py_round_one: "py_round (Fin False 1) 3 = Inr (Fin False 1)"
  by (simp add: py_round_def rhe_numeral fl_mag_1)

lemma fadd_valid: "valid_double a \<Longrightarrow> valid_double b \<Longrightarrow> valid_double (fadd a b)"
  by (cases a; cases b) (auto simp: Let_def mk_double_valid fl_mag_0)

lemma fneg_valid: "valid_double a \<Longrightarrow> valid_double (fneg a)"
  by (cases a) auto

lemma fsub_valid: "valid_double a \<Longrightarrow> valid_double b \<Longrightarrow> valid_double (fsub a b)"
  by (simp add: fsub_def fadd_valid fneg_valid)

section \<open>Currency conversion\<close>

lemma convert_currency_keys:
  assumes "map_of fallback_rates f = Some rf" and "map_of fallback_rates t = Some rt"
  shows "convert_currency (PStr f) (PStr t) amount =
           (case fdiv rt rf of Inl e \<Rightarrow> Inl e | Inr ratio \<Rightarrow> py_round (fmul amount ratio) 2)"
  using assms by (simp add: convert_currency_def)

lemma ratio_valid:
  assumes "map_of fallback_rates f = Some rf" and "map_of fallback_rates t = Some rt"
  shows "\<exists>ratio. fdiv rt rf = Inr ratio \<and> valid_double ratio"
proof -
  obtain m where rf: "rf = Fin False m" "0 < m" "fl_mag m = Some m"
    using rates_lookup[OF assms(1)] by blast
  obtain n where rt: "rt = Fin False n" "0 < n" "fl_mag n = Some n"
    using rates_lookup[OF assms(2)] by blast
  have "0 \<le> n / m" using rf(2) rt(2) by simp
  then show ?thesis using rf rt by (simp add: mk_double_valid)
qed

lemma fl_mag_100: "fl_mag 100 = Some 100"
  using fl_mag_cert[of 100 1028 7036874417766400] by simp

lemma fl_mag_092_id:
  "fl_mag (8286623314361713 / 9007199254740992) = Some (8286623314361713 / 9007199254740992)"
  using fl_mag_cert[of "8286623314361713 / 9007199254740992" 1021 8286623314361713] by simp

lemma fl_mag_100_092: "fl_mag (207165582859042825 / 2251799813685248) = Some 92"
  using fl_mag_cert[of "207165582859042825 / 2251799813685248" 1028 6473924464345088] by simp

lemma fl_mag_92: "fl_mag 92 = Some 92"
  using fl_mag_cert[of 92 1028 6473924464345088] by simp

lemma convert_currency_total:
  assumes "valid_double amount"
    and "map_of fallback_rates f = Some rf" and "map_of fallback_rates t = Some rt"
  shows "\<exists>ratio result. fdiv rt rf = Inr ratio
           \<and> py_round (fmul amount ratio) 2 = Inr result
           \<and> convert_currency (PStr f) (PStr t) amount = Inr result"
proof -
  obtain ratio where r: "fdiv rt rf = Inr ratio" "valid_double ratio"
    using ratio_valid[OF assms(2,3)] by blast
  have "valid_double (fmul amount ratio)" using assms(1) r(2) by (rule fmul_valid)
  then obtain result where "py_round (fmul amount ratio) 2 = Inr result"
    using py_round_total by blast
  then show ?thesis using assms(2,3) r(1) by (simp add: convert_currency_keys)
qed

text \<open>
  Claim C1. \<^verbatim>\<open>convert_currency\<close> raises the ValueError ``Invalid currency code.''
  when \<open>from\<close> or \<open>to\<close> is not a key of the rate table. Otherwise the ratio
  \<open>table[to] / table[from]\<close> is computed without error and the call returns
  \<open>round(amount * ratio, 2)\<close>, in binary64 arithmetic.
\<close>

theorem convert_currency_spec:
  assumes "valid_double amount"
  shows "(map_of fallback_rates f = None \<or> map_of fallback_rates t = None \<longrightarrow>
            convert_currency (PStr f) (PStr t) amount = Inl (ValueError ''Invalid currency code.''))
       \<and> (\<forall>rf rt. map_of fallback_rates f = Some rf \<and> map_of fallback_rates t = Some rt \<longrightarrow>
            (\<exists>ratio result. fdiv rt rf = Inr ratio
               \<and> py_round (fmul amount ratio) 2 = Inr result
               \<and> convert_currency (PStr f) (PStr t) amount = Inr result))"
proof (intro conjI impI allI)
  assume "map_of fallback_rates f = None \<or> map_of fallback_rates t = None"
  then show "convert_currency (PStr f) (PStr t) amount = Inl (ValueError ''Invalid currency code.'')"
    by (auto simp: convert_currency_def)
next
  fix rf rt
  assume "map_of fallback_rates f = Some rf \<and> map_of fallback_rates t = Some rt"
  then show "\<exists>ratio result. fdiv rt rf = Inr ratio
               \<and> py_round (fmul amount ratio) 2 = Inr result
               \<and> convert_currency (PStr f) (PStr t) amount = Inr result"
    using convert_currency_total[OF assms] by blast
qed

theorem convert_currency_spec_witness:
  "valid_double (Fin False 100)
   \<and> convert_currency (PStr ''USD'') (PStr ''EUR'') (Fin False 100) = Inr (Fin False 92)
   \<and> convert_currency (PStr ''XXX'') (PStr ''EUR'') (Fin False 100)
       = Inl (ValueError ''Invalid currency code.'')"
proof -
  have v: "valid_double (Fin False 100)" by (simp add: fl_mag_100)
  show ?thesis
    using v convert_currency_spec[OF v, of "''USD''" "''EUR''"]
      convert_currency_spec[OF v, of "''XXX''" "''EUR''"]
    by (simp add: fallback_rates_eval mk_double_def py_round_def rhe_numeral
        fl_mag_092_id fl_mag_100_092 fl_mag_92)
qed

lemma fl_mag_16th: "fl_mag (1 / 16) = Some (1 / 16)"
  using fl_mag_cert[of "1 / 16" 1018 4503599627370496] by simp

lemma fl_mag_006: "fl_mag (3 / 50) = Some (1080863910568919 / 18014398509481984)"
  using fl_mag_cert[of "3 / 50" 1017 8646911284551352] by simp

lemma rhe_25_4: "round_half_even (25 / 4) = 6"
  using rhe_unique[of "25 / 4" 6] by simp

lemma rhe_092_100: "round_half_even (207165582859042825 / 2251799813685248) = 92"
  using rhe_unique[of "207165582859042825 / 2251799813685248" 92] by simp

text \<open>
  Claim C2, as stated: \<open>convertCurrency(X, X, amount) == amount\<close> for every valid \<open>X\<close> and
  every amount. It fails at \<open>X = USD\<close>, \<open>amount = 0.0625\<close>: the ratio is \<open>1.0\<close>, the product
  is \<open>0.0625\<close>, and rounding to two decimals gives \<open>0.06\<close>.
\<close>

theorem identity_conversion_counterexample:
  "valid_double (Fin False (1 / 16))
   \<and> convert_currency (PStr ''USD'') (PStr ''USD'') (Fin False (1 / 16))
       = Inr (Fin False (1080863910568919 / 18014398509481984))
   \<and> convert_currency (PStr ''USD'') (PStr ''USD'') (Fin False (1 / 16))
       \<noteq> Inr (Fin False (1 / 16))"
  by (simp add: convert_currency_def fallback_rates_eval mk_double_def py_round_def
      rhe_25_4 fl_mag_1 fl_mag_16th fl_mag_006)

text \<open>
  Claim C2, amended: for every valid \<open>X\<close> and every amount, \<open>convertCurrency(X, X, amount)\<close>
  is \<open>round(amount, 2)\<close>; it is the amount itself exactly when rounding to two decimals
  leaves the amount unchanged.
\<close>

theorem identity_conversion_rounds:
  assumes "valid_double amount" and "map_of fallback_rates x = Some r"
  shows "convert_currency (PStr x) (PStr x) amount = py_round amount 2
       \<and> (convert_currency (PStr x) (PStr x) amount = Inr amount
            \<longleftrightarrow> py_round amount 2 = Inr amount)"
proof -
  obtain m where "r = Fin False m" "0 < m" using rates_lookup[OF assms(2)] by blast
  then have "fdiv r r = Inr (Fin False 1)" by (simp add: mk_double_def fl_mag_1)
  then have "convert_currency (PStr x) (PStr x) amount = py_round amount 2"
    using assms by (simp add: convert_currency_keys fmul_one)
  then show ?thesis by simp
qed

theorem identity_conversion_rounds_witness:
  "valid_double (Fin False (1 / 16))
   \<and> map_of fallback_rates ''USD'' = Some (Fin False 1)
   \<and> convert_currency (PStr ''USD'') (PStr ''USD'') (Fin False (1 / 16))
       = py_round (Fin False (1 / 16)) 2
   \<and> py_round (Fin False (1 / 16)) 2 = Inr (Fin False (1080863910568919 / 18014398509481984))"
proof -
  have v: "valid_double (Fin False (1 / 16))" by (simp add: fl_mag_16th)
  have k: "map_of fallback_rates ''USD'' = Some (Fin False 1)" by (simp add: fallback_rates_eval)
  have "py_round (Fin False (1 / 16)) 2 = Inr (Fin False (1080863910568919 / 18014398509481984))"
    by (simp add: py_round_def rhe_25_4 fl_mag_006)
  then show ?thesis using v k identity_conversion_rounds[OF v k] by simp
qed

section \<open>The endpoint /convert\<close>

text \<open>
  Claim C9. For the amount the endpoint reads from the body, the \<open>result\<close> field of the
  response of \<^verbatim>\<open>POST /convert\<close> is the value \<^verbatim>\<open>convert_currency\<close> returns on the
  same currencies and amount, and an exception of \<^verbatim>\<open>convert_currency\<close> leaves the
  endpoint unchanged.
\<close>

theorem convert_matches_service:
  assumes "py_float sf (dict_get data ''amount'' (PFloat (double_of_literal 1))) = Inr amount"
  shows "(\<forall>r. convert_currency (dict_get data ''from_currency'' PNone)
                 (dict_get data ''to_currency'' PNone) amount = Inr r \<longrightarrow>
              (\<exists>body. convert sf data = Inr (body, 200)
                 \<and> map_of body ''result'' = Some (PFloat r)))
       \<and> (\<forall>e. convert_currency (dict_get data ''from_currency'' PNone)
                 (dict_get data ''to_currency'' PNone) amount = Inl e \<longrightarrow>
              convert sf data = Inl e)"
  using assms by (simp add: convert_def Let_def)

theorem convert_matches_service_witness:
  "py_float (\<lambda>s. None) (PInt 100) = Inr (Fin False 100)
   \<and> convert (\<lambda>s. None)
        [(''from_currency'', PStr ''USD''), (''to_currency'', PStr ''EUR''), (''amount'', PInt 100)]
       = Inr ([(''from_currency'', PStr ''USD''), (''to_currency'', PStr ''EUR''),
               (''amount'', PFloat (Fin False 100)), (''result'', PFloat (Fin False 92))], 200)
   \<and> convert_currency (PStr ''USD'') (PStr ''EUR'') (Fin False 100) = Inr (Fin False 92)"
proof -
  have a: "py_float (\<lambda>s. None) (dict_get
      [(''from_currency'', PStr ''USD''), (''to_currency'', PStr ''EUR''), (''amount'', PInt 100)]
      ''amount'' (PFloat (double_of_literal 1))) = Inr (Fin False 100)"
    by (simp add: dict_get_def int_to_double_def fl_mag_100)
  have c: "convert_currency (PStr ''USD'') (PStr ''EUR'') (Fin False 100) = Inr (Fin False 92)"
    by (simp add: convert_currency_def fallback_rates_eval mk_double_def py_round_def rhe_numeral
        fl_mag_092_id fl_mag_100_092 fl_mag_92)
  show ?thesis
    using convert_matches_service[OF a] c
    by (simp add: dict_get_def int_to_double_def fl_mag_100 convert_def)
qed

text \<open>
  Claim C10. When the body of \<^verbatim>\<open>POST /convert\<close> has no \<open>amount\<close>, the endpoint converts
  the amount \<open>1.0\<close> and echoes \<open>1.0\<close> in the \<open>amount\<close> field; with two currency codes of
  the table it returns a response.
\<close>

theorem convert_default_amount:
  assumes "map_of data ''amount'' = None"
  shows "convert sf data =
           (case convert_currency (dict_get data ''from_currency'' PNone)
                   (dict_get data ''to_currency'' PNone) (Fin False 1) of
              Inl e \<Rightarrow> Inl e
            | Inr r \<Rightarrow>
                Inr ([(''from_currency'', dict_get data ''from_currency'' PNone),
                      (''to_currency'', dict_get data ''to_currency'' PNone),
                      (''amount'', PFloat (Fin False 1)),
                      (''result'', PFloat r)], 200))
       \<and> (\<forall>f t rf rt.
            map_of data ''from_currency'' = Some (PStr f) \<and> map_of data ''to_currency'' = Some (PStr t)
            \<and> map_of fallback_rates f = Some rf \<and> map_of fallback_rates t = Some rt \<longrightarrow>
            (\<exists>r. convert sf data =
                    Inr ([(''from_currency'', PStr f), (''to_currency'', PStr t),
                          (''amount'', PFloat (Fin False 1)), (''result'', PFloat r)], 200)))"
proof (intro conjI allI impI)
  have one: "double_of_literal 1 = Fin False 1"
    by (simp add: double_of_literal_def mk_double_def fl_mag_1)
  show eq: "convert sf data =
           (case convert_currency (dict_get data ''from_currency'' PNone)
                   (dict_get data ''to_currency'' PNone) (Fin False 1) of
              Inl e \<Rightarrow> Inl e
            | Inr r \<Rightarrow>
                Inr ([(''from_currency'', dict_get data ''from_currency'' PNone),
                      (''to_currency'', dict_get data ''to_currency'' PNone),
                      (''amount'', PFloat (Fin False 1)),
                      (''result'', PFloat r)], 200))"
    using assms by (simp add: convert_def Let_def one dict_get_def[of data "''amount''"])
  fix f t rf rt
  assume k: "map_of data ''from_currency'' = Some (PStr f) \<and> map_of data ''to_currency'' = Some (PStr t)
            \<and> map_of fallback_rates f = Some rf \<and> map_of fallback_rates t = Some rt"
  have v: "valid_double (Fin False 1)" by (simp add: fl_mag_1)
  obtain r where "convert_currency (PStr f) (PStr t) (Fin False 1) = Inr r"
    using convert_currency_total[OF v] k by blast
  then show "\<exists>r. convert sf data =
                    Inr ([(''from_currency'', PStr f), (''to_currency'', PStr t),
                          (''amount'', PFloat (Fin False 1)), (''result'', PFloat r)], 200)"
    using eq k by (simp add: dict_get_def)
qed

theorem convert_default_amount_witness:
  "map_of [(''from_currency'', PStr ''USD''), (''to_currency'', PStr ''EUR'')] ''amount'' = None
   \<and> convert (\<lambda>s. None) [(''from_currency'', PStr ''USD''), (''to_currency'', PStr ''EUR'')]
       = Inr ([(''from_currency'', PStr ''USD''), (''to_currency'', PStr ''EUR''),
               (''amount'', PFloat (Fin False 1)),
               (''result'', PFloat (Fin False (8286623314361713 / 9007199254740992)))], 200)"
proof -
  have a: "map_of [(''from_currency'', PStr ''USD''), (''to_currency'', PStr ''EUR'')] ''amount'' = None"
    by simp
  have c: "convert_currency (PStr ''USD'') (PStr ''EUR'') (Fin False 1)
      = Inr (Fin False (8286623314361713 / 9007199254740992))"
    by (simp add: convert_currency_def fallback_rates_eval mk_double_def py_round_def
        rhe_092_100 fl_mag_092_id fl_mag_092)
  show ?thesis
    using a c convert_default_amount[OF a, of "\<lambda>s. None"]
    by (simp add: dict_get_def)
qed

section \<open>Rate listing\<close>

lemma fdiv_by_finite:
  assumes "0 < m" and "fl_mag m = Some m" and "valid_double r"
  shows "\<exists>q. fdiv r (Fin s m) = Inr q \<and> valid_double q"
proof -
  have "\<exists>q. fdiv r (Fin s m) = Inr q" using assms(1) by (cases r) auto
  then obtain q where q: "fdiv r (Fin s m) = Inr q" by blast
  have "valid_double (Fin s m)" using assms(1,2) by simp
  then have "valid_double q" using assms(3) q fdiv_valid by blast
  then show ?thesis using q by blast
qed

lemma rates_loop_total:
  assumes "0 < m" and "fl_mag m = Some m" and "\<forall>(c, r) \<in> set items. valid_double r"
  shows "\<exists>rs. rates_loop (Fin s m) items = Inr rs
           \<and> list_all2 (\<lambda>(c, r) x. currency x = c
                \<and> (\<exists>q. fdiv r (Fin s m) = Inr q \<and> py_round q 3 = Inr (rate x))) items rs"
  using assms(3)
proof (induction items)
  case Nil
  then show ?case by simp
next
  case (Cons item items)
  obtain c r where item: "item = (c, r)" by (cases item)
  have "valid_double r" using Cons.prems item by simp
  then obtain q where q: "fdiv r (Fin s m) = Inr q" "valid_double q"
    using fdiv_by_finite[OF assms(1,2)] by blast
  obtain v where v: "py_round q 3 = Inr v" using py_round_total[OF q(2)] by blast
  obtain rs where rs: "rates_loop (Fin s m) items = Inr rs"
    "list_all2 (\<lambda>(c, r) x. currency x = c
        \<and> (\<exists>q. fdiv r (Fin s m) = Inr q \<and> py_round q 3 = Inr (rate x))) items rs"
    using Cons by auto
  show ?case using item q(1) v rs by simp
qed

lemma rates_valid: "\<forall>(c, r) \<in> set fallback_rates. valid_double r"
  by (auto simp: fallback_rates_def double_of_literal_valid)

lemma get_rates_total:
  assumes "map_of fallback_rates b = Some base"
  shows "\<exists>rs. get_rates (PStr b) = Inr rs
           \<and> list_all2 (\<lambda>(c, r) x. currency x = c
                \<and> (\<exists>q. fdiv r base = Inr q \<and> py_round q 3 = Inr (rate x))) fallback_rates rs"
proof -
  obtain m where m: "base = Fin False m" "0 < m" "fl_mag m = Some m"
    using rates_lookup[OF assms] by blast
  have "get_rates (PStr b) = rates_loop base fallback_rates"
    using assms by (simp add: get_rates_def)
  then show ?thesis
    using rates_loop_total[OF m(2,3) rates_valid, of False] m(1) by simp
qed

lemma list_all2_currency:
  "list_all2 (\<lambda>(c, r) x. currency x = c \<and> P r x) items rs \<Longrightarrow> map currency rs = map fst items"
  by (induction items rs rule: list_all2_induct) auto

text \<open>
  Claim C3. \<^verbatim>\<open>get_rates\<close> raises the ValueError ``Invalid base currency'' when the base
  is not a key of the rate table. Otherwise it yields one record per entry of the table, in
  the table's order USD, EUR, GBP, JPY, each with the entry's currency and the rate
  \<open>round(rate / table[base], 3)\<close>, in binary64 arithmetic.
\<close>

theorem get_rates_spec:
  "(map_of fallback_rates b = None \<longrightarrow>
      get_rates (PStr b) = Inl (ValueError ''Invalid base currency''))
   \<and> (\<forall>base. map_of fallback_rates b = Some base \<longrightarrow>
        (\<exists>rs. get_rates (PStr b) = Inr rs
           \<and> map currency rs = [''USD'', ''EUR'', ''GBP'', ''JPY'']
           \<and> list_all2 (\<lambda>(c, r) x. currency x = c
                \<and> (\<exists>q. fdiv r base = Inr q \<and> py_round q 3 = Inr (rate x))) fallback_rates rs))"
proof (intro conjI impI allI)
  assume "map_of fallback_rates b = None"
  then show "get_rates (PStr b) = Inl (ValueError ''Invalid base currency'')"
    by (simp add: get_rates_def)
next
  fix base
  assume "map_of fallback_rates b = Some base"
  then obtain rs where rs: "get_rates (PStr b) = Inr rs"
    "list_all2 (\<lambda>(c, r) x. currency x = c
        \<and> (\<exists>q. fdiv r base = Inr q \<and> py_round q 3 = Inr (rate x))) fallback_rates rs"
    using get_rates_total by blast
  have "map currency rs = map fst fallback_rates" using rs(2) by (rule list_all2_currency)
  then have "map currency rs = [''USD'', ''EUR'', ''GBP'', ''JPY'']"
    by (simp add: fallback_rates_def)
  then have "get_rates (PStr b) = Inr rs
           \<and> map currency rs = [''USD'', ''EUR'', ''GBP'', ''JPY'']
           \<and> list_all2 (\<lambda>(c, r) x. currency x = c
                \<and> (\<exists>q. fdiv r base = Inr q \<and> py_round q 3 = Inr (rate x))) fallback_rates rs"
    using rs by (intro conjI)
  then show "\<exists>rs. get_rates (PStr b) = Inr rs
           \<and> map currency rs = [''USD'', ''EUR'', ''GBP'', ''JPY'']
           \<and> list_all2 (\<lambda>(c, r) x. currency x = c
                \<and> (\<exists>q. fdiv r base = Inr q \<and> py_round q 3 = Inr (rate x))) fallback_rates rs"
    by (rule exI)
qed

lemma fl_usd_eur:
  "fl_mag (9007199254740992 / 8286623314361713) = Some (2447608493136139 / 2251799813685248)"
  using fl_mag_cert[of "9007199254740992 / 8286623314361713" 1022 4895216986272278] by simp

lemma rhe_usd_eur: "round_half_even (305951061642017375 / 281474976710656) = 1087"
  using rhe_unique[of "305951061642017375 / 281474976710656" 1087] by simp

lemma fl_r3_usd_eur: "fl_mag (1087 / 1000) = Some (4895412794951729 / 4503599627370496)"
  using fl_mag_cert[of "1087 / 1000" 1022 4895412794951729] by simp

lemma fl_gbp_eur:
  "fl_mag (7025615418697974 / 8286623314361713) = Some (3818269249292377 / 4503599627370496)"
  using fl_mag_cert[of "7025615418697974 / 8286623314361713" 1021 7636538498584754] by simp

lemma rhe_gbp_eur: "round_half_even (477283656161547125 / 562949953421312) = 848"
  using rhe_unique[of "477283656161547125 / 562949953421312" 848] by simp

lemma fl_r3_gbp_eur: "fl_mag (106 / 125) = Some (7638104968020361 / 9007199254740992)"
  using fl_mag_cert[of "106 / 125" 1021 7638104968020361] by simp

lemma fl_jpy_eur:
  "fl_mag (1351079888211148800 / 8286623314361713) = Some (2868291202893913 / 17592186044416)"
  using fl_mag_cert[of "1351079888211148800 / 8286623314361713" 1029 5736582405787826] by simp

lemma rhe_jpy_eur: "round_half_even (358536400361739125 / 2199023255552) = 163043"
  using rhe_unique[of "358536400361739125 / 2199023255552" 163043] by simp

lemma fl_r3_jpy_eur: "fl_mag (163043 / 1000) = Some (1434141394619859 / 8796093022208)"
  using fl_mag_cert[of "163043 / 1000" 1029 5736565578479436] by simp

lemma get_rates_EUR:
  "get_rates (PStr ''EUR'') =
     Inr [\<lparr>currency = ''USD'', rate = Fin False (4895412794951729 / 4503599627370496)\<rparr>,
          \<lparr>currency = ''EUR'', rate = Fin False 1\<rparr>,
          \<lparr>currency = ''GBP'', rate = Fin False (7638104968020361 / 9007199254740992)\<rparr>,
          \<lparr>currency = ''JPY'', rate = Fin False (1434141394619859 / 8796093022208)\<rparr>]"
  by (simp add: get_rates_def fallback_rates_eval mk_double_def py_round_def rhe_numeral fl_mag_1
      fl_usd_eur rhe_usd_eur fl_r3_usd_eur fl_gbp_eur rhe_gbp_eur fl_r3_gbp_eur
      fl_jpy_eur rhe_jpy_eur fl_r3_jpy_eur)

theorem get_rates_spec_witness:
  "get_rates (PStr ''XXX'') = Inl (ValueError ''Invalid base currency'')
   \<and> get_rates (PStr ''EUR'') =
     Inr [\<lparr>currency = ''USD'', rate = Fin False (4895412794951729 / 4503599627370496)\<rparr>,
          \<lparr>currency = ''EUR'', rate = Fin False 1\<rparr>,
          \<lparr>currency = ''GBP'', rate = Fin False (7638104968020361 / 9007199254740992)\<rparr>,
          \<lparr>currency = ''JPY'', rate = Fin False (1434141394619859 / 8796093022208)\<rparr>]"
  using get_rates_spec[of "''XXX''"] get_rates_spec[of "''EUR''"] get_rates_EUR
  by (simp add: fallback_rates_eval)

text \<open>
  Claim C7. For every base currency of the rate table, the records \<^verbatim>\<open>get_rates\<close> yields
  include the record of the base itself, with rate \<open>1.0\<close>.
\<close>

theorem get_rates_includes_base:
  assumes "map_of fallback_rates b = Some base"
  shows "\<exists>rs. get_rates (PStr b) = Inr rs \<and> \<lparr>currency = b, rate = Fin False 1\<rparr> \<in> set rs"
proof -
  obtain m where m: "base = Fin False m" "0 < m" using rates_lookup[OF assms] by blast
  obtain rs where rs: "get_rates (PStr b) = Inr rs"
    "list_all2 (\<lambda>(c, r) x. currency x = c
        \<and> (\<exists>q. fdiv r base = Inr q \<and> py_round q 3 = Inr (rate x))) fallback_rates rs"
    using get_rates_total[OF assms] by blast
  have "(b, base) \<in> set fallback_rates" using assms by (rule map_of_SomeD)
  then obtain i where i: "i < length fallback_rates" "fallback_rates ! i = (b, base)"
    by (auto simp: in_set_conv_nth)
  have len: "length rs = length fallback_rates" using rs(2) by (simp add: list_all2_lengthD)
  have "currency (rs ! i) = b
      \<and> (\<exists>q. fdiv base base = Inr q \<and> py_round q 3 = Inr (rate (rs ! i)))"
    using list_all2_nthD[OF rs(2) i(1)] i(2) by simp
  then have "currency (rs ! i) = b \<and> rate (rs ! i) = Fin False 1"
    using m by (auto simp: mk_double_def fl_mag_1 py_round_one)
  then have "rs ! i = \<lparr>currency = b, rate = Fin False 1\<rparr>" by (cases "rs ! i") simp
  moreover have "rs ! i \<in> set rs" using i(1) len by simp
  ultimately show ?thesis using rs(1) by auto
qed

theorem get_rates_includes_base_witness:
  "map_of fallback_rates ''JPY'' = Some (Fin False 150)
   \<and> (\<exists>rs. get_rates (PStr ''JPY'') = Inr rs \<and> \<lparr>currency = ''JPY'', rate = Fin False 1\<rparr> \<in> set rs)"
proof -
  have k: "map_of fallback_rates ''JPY'' = Some (Fin False 150)"
    by (simp add: fallback_rates_eval)
  show ?thesis using k get_rates_includes_base[OF k] by simp
qed

section \<open>Temperature conversion\<close>

lemma fl_mag_5: "fl_mag 5 = Some 5"
  using fl_mag_cert[of 5 1024 5629499534213120] by simp

lemma fl_mag_9: "fl_mag 9 = Some 9"
  using fl_mag_cert[of 9 1025 5066549580791808] by simp

lemma fl_mag_32: "fl_mag 32 = Some 32"
  using fl_mag_cert[of 32 1027 4503599627370496] by simp

lemma fl_mag_180: "fl_mag 180 = Some 180"
  using fl_mag_cert[of 180 1029 6333186975989760] by simp

lemma fl_mag_212: "fl_mag 212 = Some 212"
  using fl_mag_cert[of 212 1029 7459086882832384] by simp

lemma fl_mag_900: "fl_mag 900 = Some 900"
  using fl_mag_cert[of 900 1031 7916483719987200] by simp

lemma celsius_to_fahrenheit_total:
  assumes "valid_double x"
  shows "\<exists>q r. fdiv (fmul x (Fin False 9)) (Fin False 5) = Inr q
           \<and> py_round (fadd q (Fin False 32)) 2 = Inr r"
proof -
  have "valid_double (fmul x (Fin False 9))"
    using assms by (intro fmul_valid) (simp_all add: fl_mag_9)
  then obtain q where q: "fdiv (fmul x (Fin False 9)) (Fin False 5) = Inr q" "valid_double q"
    using fdiv_by_finite[of 5 "fmul x (Fin False 9)" False] by (auto simp: fl_mag_5)
  have "valid_double (fadd q (Fin False 32))"
    using q(2) by (intro fadd_valid) (simp_all add: fl_mag_32)
  then obtain r where "py_round (fadd q (Fin False 32)) 2 = Inr r"
    using py_round_total by blast
  then show ?thesis using q(1) by blast
qed

lemma fahrenheit_to_celsius_total:
  assumes "valid_double x"
  shows "\<exists>q r. fdiv (fmul (fsub x (Fin False 32)) (Fin False 5)) (Fin False 9) = Inr q
           \<and> py_round q 2 = Inr r"
proof -
  have "valid_double (fsub x (Fin False 32))"
    using assms by (intro fsub_valid) (simp_all add: fl_mag_32)
  then have "valid_double (fmul (fsub x (Fin False 32)) (Fin False 5))"
    by (intro fmul_valid) (simp_all add: fl_mag_5)
  then obtain q where q: "fdiv (fmul (fsub x (Fin False 32)) (Fin False 5)) (Fin False 9) = Inr q"
    "valid_double q"
    using fdiv_by_finite[of 9 "fmul (fsub x (Fin False 32)) (Fin False 5)" False]
    by (auto simp: fl_mag_9)
  obtain r where "py_round q 2 = Inr r" using py_round_total[OF q(2)] by blast
  then show ?thesis using q(1) by blast
qed

text \<open>
  Claim C4. For a body with \<open>from_unit\<close>, \<open>to_unit\<close> and a \<open>value\<close> that \<^verbatim>\<open>float\<close>
  accepts, \<^verbatim>\<open>POST /convert_temp\<close> answers the pair C, F with
  \<open>round(value * 9 / 5 + 32, 2)\<close>, the pair F, C with \<open>round((value - 32) * 5 / 9, 2)\<close>, and
  every other pair of units, identical units included, with status 400 and the body
  \<open>{error: "Invalid conversion units"}\<close>.
\<close>

theorem convert_temp_spec:
  assumes "map_of data ''from_unit'' = Some fu" and "map_of data ''to_unit'' = Some tu"
    and "map_of data ''value'' = Some v" and "py_float sf v = Inr x" and "valid_double x"
  shows "(fu = PStr ''C'' \<and> tu = PStr ''F'' \<longrightarrow>
            (\<exists>q r. fdiv (fmul x (Fin False 9)) (Fin False 5) = Inr q
               \<and> py_round (fadd q (Fin False 32)) 2 = Inr r
               \<and> convert_temp sf data =
                   Inr ([(''from_unit'', fu), (''to_unit'', tu), (''value'', PFloat x),
                         (''result'', PFloat r)], 200)))
       \<and> (fu = PStr ''F'' \<and> tu = PStr ''C'' \<longrightarrow>
            (\<exists>q r. fdiv (fmul (fsub x (Fin False 32)) (Fin False 5)) (Fin False 9) = Inr q
               \<and> py_round q 2 = Inr r
               \<and> convert_temp sf data =
                   Inr ([(''from_unit'', fu), (''to_unit'', tu), (''value'', PFloat x),
                         (''result'', PFloat r)], 200)))
       \<and> (\<not> (fu = PStr ''C'' \<and> tu = PStr ''F'') \<and> \<not> (fu = PStr ''F'' \<and> tu = PStr ''C'') \<longrightarrow>
            convert_temp sf data = Inr ([(''error'', PStr ''Invalid conversion units'')], 400))"
proof (intro conjI impI)
  assume u: "fu = PStr ''C'' \<and> tu = PStr ''F''"
  obtain q r where "fdiv (fmul x (Fin False 9)) (Fin False 5) = Inr q"
    "py_round (fadd q (Fin False 32)) 2 = Inr r"
    using celsius_to_fahrenheit_total[OF assms(5)] by blast
  then show "\<exists>q r. fdiv (fmul x (Fin False 9)) (Fin False 5) = Inr q
               \<and> py_round (fadd q (Fin False 32)) 2 = Inr r
               \<and> convert_temp sf data =
                   Inr ([(''from_unit'', fu), (''to_unit'', tu), (''value'', PFloat x),
                         (''result'', PFloat r)], 200)"
    using assms(1-4) u by (simp add: convert_temp_def getitem_def)
next
  assume u: "fu = PStr ''F'' \<and> tu = PStr ''C''"
  obtain q r where "fdiv (fmul (fsub x (Fin False 32)) (Fin False 5)) (Fin False 9) = Inr q"
    "py_round q 2 = Inr r"
    using fahrenheit_to_celsius_total[OF assms(5)] by blast
  then show "\<exists>q r. fdiv (fmul (fsub x (Fin False 32)) (Fin False 5)) (Fin False 9) = Inr q
               \<and> py_round q 2 = Inr r
               \<and> convert_temp sf data =
                   Inr ([(''from_unit'', fu), (''to_unit'', tu), (''value'', PFloat x),
                         (''result'', PFloat r)], 200)"
    using assms(1-4) u by (simp add: convert_temp_def getitem_def)
next
  assume "\<not> (fu = PStr ''C'' \<and> tu = PStr ''F'') \<and> \<not> (fu = PStr ''F'' \<and> tu = PStr ''C'')"
  then show "convert_temp sf data = Inr ([(''error'', PStr ''Invalid conversion units'')], 400)"
    using assms(1-4) by (auto simp: convert_temp_def getitem_def)
qed

theorem convert_temp_spec_witness:
  "convert_temp (\<lambda>s. None) [(''from_unit'', PStr ''C''), (''to_unit'', PStr ''F''), (''value'', PInt 0)]
     = Inr ([(''from_unit'', PStr ''C''), (''to_unit'', PStr ''F''), (''value'', PFloat (Fin False 0)),
             (''result'', PFloat (Fin False 32))], 200)
   \<and> convert_temp (\<lambda>s. None) [(''from_unit'', PStr ''F''), (''to_unit'', PStr ''C''), (''value'', PInt 212)]
     = Inr ([(''from_unit'', PStr ''F''), (''to_unit'', PStr ''C''), (''value'', PFloat (Fin False 212)),
             (''result'', PFloat (Fin False 100))], 200)
   \<and> convert_temp (\<lambda>s. None) [(''from_unit'', PStr ''C''), (''to_unit'', PStr ''C''), (''value'', PInt 0)]
     = Inr ([(''error'', PStr ''Invalid conversion units'')], 400)"
proof -
  have f0: "py_float (\<lambda>s. None) (PInt 0) = Inr (Fin False 0)"
    by (simp add: int_to_double_def fl_mag_0)
  have f212: "py_float (\<lambda>s. None) (PInt 212) = Inr (Fin False 212)"
    by (simp add: int_to_double_def fl_mag_212)
  have v0: "valid_double (Fin False 0)" by (simp add: fl_mag_0)
  have v212: "valid_double (Fin False 212)" by (simp add: fl_mag_212)
  have a: "convert_temp (\<lambda>s. None)
      [(''from_unit'', PStr ''C''), (''to_unit'', PStr ''F''), (''value'', PInt 0)]
     = Inr ([(''from_unit'', PStr ''C''), (''to_unit'', PStr ''F''), (''value'', PFloat (Fin False 0)),
             (''result'', PFloat (Fin False 32))], 200)"
    using convert_temp_spec[of "[(''from_unit'', PStr ''C''), (''to_unit'', PStr ''F''), (''value'', PInt 0)]"
        "PStr ''C''" "PStr ''F''" "PInt 0" "\<lambda>s. None" "Fin False 0"] f0 v0
    by (simp add: mk_double_def sval_def py_round_def rhe_numeral fl_mag_0 fl_mag_32)
  have b: "convert_temp (\<lambda>s. None)
      [(''from_unit'', PStr ''F''), (''to_unit'', PStr ''C''), (''value'', PInt 212)]
     = Inr ([(''from_unit'', PStr ''F''), (''to_unit'', PStr ''C''), (''value'', PFloat (Fin False 212)),
             (''result'', PFloat (Fin False 100))], 200)"
    using convert_temp_spec[of "[(''from_unit'', PStr ''F''), (''to_unit'', PStr ''C''), (''value'', PInt 212)]"
        "PStr ''F''" "PStr ''C''" "PInt 212" "\<lambda>s. None" "Fin False 212"] f212 v212
    by (simp add: mk_double_def sval_def fsub_def py_round_def rhe_numeral
        fl_mag_180 fl_mag_900 fl_mag_100)
  have c: "convert_temp (\<lambda>s. None)
      [(''from_unit'', PStr ''C''), (''to_unit'', PStr ''C''), (''value'', PInt 0)]
     = Inr ([(''error'', PStr ''Invalid conversion units'')], 400)"
    using convert_temp_spec[of "[(''from_unit'', PStr ''C''), (''to_unit'', PStr ''C''), (''value'', PInt 0)]"
        "PStr ''C''" "PStr ''C''" "PInt 0" "\<lambda>s. None" "Fin False 0"] f0 v0
    by simp
  show ?thesis using a b c by simp
qed

section \<open>The calculator\<close>

lemma calculate_args:
  assumes "map_of data ''operation'' = Some op"
    and "map_of data ''intA'' = Some va" and "py_int si va = Inr a"
    and "map_of data ''intB'' = Some vb" and "py_int si vb = Inr b"
  shows "calculate si data =
     (case (if op = PStr ''add'' then Inr (Some (PInt (a + b)))
            else if op = PStr ''subtract'' then Inr (Some (PInt (a - b)))
            else if op = PStr ''multiply'' then Inr (Some (PInt (a * b)))
            else if op = PStr ''divide''
            then (if b \<noteq> 0
                  then (case int_truediv a b of
                          Inl e \<Rightarrow> Inl e
                        | Inr q \<Rightarrow> Inr (Some (PFloat q)))
                  else Inr (Some (PStr ''Infinity'')))
            else Inr None) of
        Inl e \<Rightarrow> Inl e
      | Inr None \<Rightarrow> Inr ([(''error'', PStr ''Invalid operation'')], 400)
      | Inr (Some result) \<Rightarrow>
          Inr ([(''operation'', op),
                (''intA'', PInt a),
                (''intB'', PInt b),
                (''result'', result)], 200))"
  using assms by (simp add: calculate_def getitem_def)

lemma fl_mag_7_2: "fl_mag (7 / 2) = Some (7 / 2)"
  using fl_mag_cert[of "7 / 2" 1023 7881299347898368] by simp

lemma fl_mag_2_1024: "fl_mag (2 ^ 1024) = None"
  using fl_mag_cert[of "2 ^ 1024" 2046 4503599627370496] by simp

text \<open>
  Claim C5, as stated: for every nonzero divisor \<open>b\<close>, \<open>calculate('divide', a, b)\<close> returns
  the quotient. It fails at \<open>a = 2 ^ 1024\<close>, \<open>b = 1\<close>: the quotient is beyond the range of a
  float and the division raises OverflowError.
\<close>

theorem calculate_divide_counterexample:
  "calculate (\<lambda>s. None)
     [(''operation'', PStr ''divide''), (''intA'', PInt (2 ^ 1024)), (''intB'', PInt 1)]
   = Inl OverflowError"
  using fl_mag_2_1024 by (simp add: calculate_def getitem_def int_truediv_def)

lemma quotient_in_range:
  fixes a b :: int
  assumes "\<bar>of_int a\<bar> < (2 :: rat) ^ 1023 * \<bar>of_int b\<bar>"
  shows "\<exists>m. fl_mag (\<bar>of_int a\<bar> / \<bar>of_int b\<bar>) = Some m"
proof -
  define P :: rat where "P = 2 ^ 1023"
  have P0: "0 < P" unfolding P_def by simp
  have a: "\<bar>of_int a\<bar> < P * \<bar>of_int b :: rat\<bar>" using assms unfolding P_def .
  have b0: "0 < \<bar>of_int b :: rat\<bar>"
  proof (rule ccontr)
    assume "\<not> 0 < \<bar>of_int b :: rat\<bar>"
    then have "\<bar>of_int b :: rat\<bar> = 0" by simp
    then show False using a by simp
  qed
  have "\<bar>of_int a\<bar> / \<bar>of_int b :: rat\<bar> < P"
    using a b0 by (simp add: pos_divide_less_eq)
  then have "\<bar>of_int a\<bar> / \<bar>of_int b :: rat\<bar> < 2 ^ 1023" unfolding P_def .
  moreover have "0 \<le> \<bar>of_int a\<bar> / \<bar>of_int b :: rat\<bar>" by simp
  ultimately show ?thesis using fl_mag_err[of "\<bar>of_int a\<bar> / \<bar>of_int b\<bar>" 1023] by blast
qed

text \<open>
  Claim C5, amended: \<open>calculate('divide', n, 0)\<close> does not fail and returns the string
  \<open>"Infinity"\<close>; for a nonzero divisor \<open>b\<close> the result is a float nearest to the quotient
  \<open>a / b\<close> (no float is nearer; the sign is the quotient's), which may be non-integer;
  the call returns whenever \<open>|a / b| < 2 ^ 1023\<close>, and raises OverflowError when the
  nearest float is not finite.
\<close>

theorem calculate_divide:
  assumes "map_of data ''operation'' = Some (PStr ''divide'')"
    and "map_of data ''intA'' = Some va" and "py_int si va = Inr a"
    and "map_of data ''intB'' = Some vb" and "py_int si vb = Inr b"
  shows "(b = 0 \<longrightarrow> calculate si data =
            Inr ([(''operation'', PStr ''divide''), (''intA'', PInt a), (''intB'', PInt b),
                  (''result'', PStr ''Infinity'')], 200))
       \<and> (b \<noteq> 0 \<longrightarrow> calculate si data =
            (case fl_mag (\<bar>of_int a\<bar> / \<bar>of_int b\<bar>) of
               None \<Rightarrow> Inl OverflowError
             | Some m \<Rightarrow>
                 Inr ([(''operation'', PStr ''divide''), (''intA'', PInt a), (''intB'', PInt b),
                       (''result'', PFloat (Fin ((a < 0) \<noteq> (b < 0)) m))], 200)))
       \<and> (\<forall>m m'. fl_mag (\<bar>of_int a\<bar> / \<bar>of_int b\<bar>) = Some m \<and> 0 \<le> m' \<and> fl_mag m' = Some m' \<longrightarrow>
            \<bar>m - \<bar>of_int a\<bar> / \<bar>of_int b\<bar>\<bar> \<le> \<bar>m' - \<bar>of_int a\<bar> / \<bar>of_int b\<bar>\<bar>)
       \<and> (\<bar>of_int a\<bar> < (2 :: rat) ^ 1023 * \<bar>of_int b\<bar> \<longrightarrow>
            (\<exists>m. fl_mag (\<bar>of_int a\<bar> / \<bar>of_int b\<bar>) = Some m))"
proof (intro conjI impI allI)
  assume "b = 0"
  then show "calculate si data =
            Inr ([(''operation'', PStr ''divide''), (''intA'', PInt a), (''intB'', PInt b),
                  (''result'', PStr ''Infinity'')], 200)"
    by (simp add: calculate_args[OF assms])
next
  assume "b \<noteq> 0"
  then show "calculate si data =
            (case fl_mag (\<bar>of_int a\<bar> / \<bar>of_int b\<bar>) of
               None \<Rightarrow> Inl OverflowError
             | Some m \<Rightarrow>
                 Inr ([(''operation'', PStr ''divide''), (''intA'', PInt a), (''intB'', PInt b),
                       (''result'', PFloat (Fin ((a < 0) \<noteq> (b < 0)) m))], 200))"
    by (simp add: calculate_args[OF assms] int_truediv_def split: option.splits)
next
  fix m m' :: rat
  assume h: "fl_mag (\<bar>of_int a\<bar> / \<bar>of_int b\<bar>) = Some m \<and> 0 \<le> m' \<and> fl_mag m' = Some m'"
  have "0 \<le> \<bar>of_int a\<bar> / \<bar>of_int b :: rat\<bar>" by simp
  then show "\<bar>m - \<bar>of_int a\<bar> / \<bar>of_int b\<bar>\<bar> \<le> \<bar>m' - \<bar>of_int a\<bar> / \<bar>of_int b\<bar>\<bar>"
    using h fl_mag_nearest by blast
next
  assume "\<bar>of_int a\<bar> < (2 :: rat) ^ 1023 * \<bar>of_int b\<bar>"
  then show "\<exists>m. fl_mag (\<bar>of_int a\<bar> / \<bar>of_int b\<bar>) = Some m"
    by (rule quotient_in_range)
qed

theorem calculate_divide_witness:
  "calculate (\<lambda>s. None) [(''operation'', PStr ''divide''), (''intA'', PInt 5), (''intB'', PInt 0)]
     = Inr ([(''operation'', PStr ''divide''), (''intA'', PInt 5), (''intB'', PInt 0),
             (''result'', PStr ''Infinity'')], 200)
   \<and> calculate (\<lambda>s. None) [(''operation'', PStr ''divide''), (''intA'', PInt (- 7)), (''intB'', PInt 2)]
     = Inr ([(''operation'', PStr ''divide''), (''intA'', PInt (- 7)), (''intB'', PInt 2),
             (''result'', PFloat (Fin True (7 / 2)))], 200)"
  using calculate_divide[of "[(''operation'', PStr ''divide''), (''intA'', PInt 5), (''intB'', PInt 0)]"
      "PInt 5" "\<lambda>s. None" 5 "PInt 0" 0]
    calculate_divide[of "[(''operation'', PStr ''divide''), (''intA'', PInt (- 7)), (''intB'', PInt 2)]"
      "PInt (- 7)" "\<lambda>s. None" "- 7" "PInt 2" 2]
  by (simp add: fl_mag_7_2)

text \<open>
  Claim C6. For a body whose \<open>intA\<close> and \<open>intB\<close> \<^verbatim>\<open>int\<close> accepts, \<^verbatim>\<open>POST /calculate\<close>
  returns the exact integer sum, difference and product for \<open>add\<close>, \<open>subtract\<close> and
  \<open>multiply\<close>, and status 400 with the body \<open>{error: "Invalid operation"}\<close> for every
  operation other than \<open>add\<close>, \<open>subtract\<close>, \<open>multiply\<close> and \<open>divide\<close>.
\<close>

theorem calculate_ops:
  assumes "map_of data ''operation'' = Some op"
    and "map_of data ''intA'' = Some va" and "py_int si va = Inr a"
    and "map_of data ''intB'' = Some vb" and "py_int si vb = Inr b"
  shows "(op = PStr ''add'' \<longrightarrow> calculate si data =
            Inr ([(''operation'', op), (''intA'', PInt a), (''intB'', PInt b),
                  (''result'', PInt (a + b))], 200))
       \<and> (op = PStr ''subtract'' \<longrightarrow> calculate si data =
            Inr ([(''operation'', op), (''intA'', PInt a), (''intB'', PInt b),
                  (''result'', PInt (a - b))], 200))
       \<and> (op = PStr ''multiply'' \<longrightarrow> calculate si data =
            Inr ([(''operation'', op), (''intA'', PInt a), (''intB'', PInt b),
                  (''result'', PInt (a * b))], 200))
       \<and> (op \<notin> {PStr ''add'', PStr ''subtract'', PStr ''multiply'', PStr ''divide''} \<longrightarrow>
            calculate si data = Inr ([(''error'', PStr ''Invalid operation'')], 400))"
  by (simp add: calculate_args[OF assms])

theorem calculate_ops_witness:
  "calculate (\<lambda>s. None) [(''operation'', PStr ''add''), (''intA'', PInt 2), (''intB'', PInt 3)]
     = Inr ([(''operation'', PStr ''add''), (''intA'', PInt 2), (''intB'', PInt 3),
             (''result'', PInt 5)], 200)
   \<and> calculate (\<lambda>s. None) [(''operation'', PStr ''subtract''), (''intA'', PInt 2), (''intB'', PInt 3)]
     = Inr ([(''operation'', PStr ''subtract''), (''intA'', PInt 2), (''intB'', PInt 3),
             (''result'', PInt (- 1))], 200)
   \<and> calculate (\<lambda>s. None) [(''operation'', PStr ''multiply''), (''intA'', PInt 2), (''intB'', PInt 3)]
     = Inr ([(''operation'', PStr ''multiply''), (''intA'', PInt 2), (''intB'', PInt 3),
             (''result'', PInt 6)], 200)
   \<and> calculate (\<lambda>s. None) [(''operation'', PStr ''bogus''), (''intA'', PInt 1), (''intB'', PInt 2)]
     = Inr ([(''error'', PStr ''Invalid operation'')], 400)"
  using calculate_ops[of "[(''operation'', PStr ''add''), (''intA'', PInt 2), (''intB'', PInt 3)]"
      "PStr ''add''" "PInt 2" "\<lambda>s. None" 2 "PInt 3" 3]
    calculate_ops[of "[(''operation'', PStr ''subtract''), (''intA'', PInt 2), (''intB'', PInt 3)]"
      "PStr ''subtract''" "PInt 2" "\<lambda>s. None" 2 "PInt 3" 3]
    calculate_ops[of "[(''operation'', PStr ''multiply''), (''intA'', PInt 2), (''intB'', PInt 3)]"
      "PStr ''multiply''" "PInt 2" "\<lambda>s. None" 2 "PInt 3" 3]
    calculate_ops[of "[(''operation'', PStr ''bogus''), (''intA'', PInt 1), (''intB'', PInt 2)]"
      "PStr ''bogus''" "PInt 1" "\<lambda>s. None" 1 "PInt 2" 2]
  by simp

section \<open>The round trip\<close>

lemma round_trip_pair:
  assumes a0: "0 \<le> a" and a300: "a \<le> 10 ^ 300"
    and ta: "map_of fallback_rates A = Some ta" and tb: "map_of fallback_rates B = Some tb"
    and rt: "fdiv tb ta = Inr (Fin False rho)"
    and bk: "convert_currency (PStr B) (PStr A) (Fin False 1) = Inr (Fin False kap)"
    and bounds: "0 \<le> rho" "rho \<le> 2" "0 \<le> kap" "kap \<le> 193"
      "\<bar>rho * kap - 1\<bar> \<le> 29 / 10000"
  shows "\<exists>p. round_trip A B (Fin s a) = Inr (Fin s p) \<and> \<bar>p - a\<bar> \<le> 3 / 1000 * a + 1"
proof -
  obtain y c p where y: "fl_mag (a * rho) = Some y"
    and c: "fl_mag (of_int (round_half_even (y * 10 ^ 2)) / 10 ^ 2) = Some c"
    and p: "fl_mag (c * kap) = Some p" and b: "\<bar>p - a\<bar> \<le> 3 / 1000 * a + 1"
    using round_trip_generic[OF a0 a300 bounds] by blast
  have "convert_currency (PStr A) (PStr B) (Fin s a) = py_round (fmul (Fin s a) (Fin False rho)) 2"
    using convert_currency_keys[OF ta tb] rt by simp
  also have "\<dots> = Inr (Fin s c)" using y c by (simp add: mk_double_def py_round_def)
  finally have "round_trip A B (Fin s a) = Inr (Fin s p)"
    using bk p by (simp add: round_trip_def mk_double_def)
  then show ?thesis using b by blast
qed

subsection \<open>The rates and the unit conversions of every pair\<close>

lemma fl_ratio_USD_EUR: "fl_mag (8286623314361713 / 9007199254740992) = Some (8286623314361713 / 9007199254740992)"
  using fl_mag_cert[of "8286623314361713 / 9007199254740992" 1021 8286623314361713] by simp

lemma fl_ratio_USD_GBP: "fl_mag (3512807709348987 / 4503599627370496) = Some (3512807709348987 / 4503599627370496)"
  using fl_mag_cert[of "3512807709348987 / 4503599627370496" 1021 7025615418697974] by simp

lemma fl_ratio_USD_JPY: "fl_mag 150 = Some 150"
  using fl_mag_cert[of 150 1029 5277655813324800] by simp

lemma fl_ratio_EUR_USD: "fl_mag (9007199254740992 / 8286623314361713) = Some (2447608493136139 / 2251799813685248)"
  using fl_mag_cert[of "9007199254740992 / 8286623314361713" 1022 4895216986272278] by simp

lemma fl_ratio_EUR_GBP: "fl_mag (7025615418697974 / 8286623314361713) = Some (3818269249292377 / 4503599627370496)"
  using fl_mag_cert[of "7025615418697974 / 8286623314361713" 1021 7636538498584754] by simp

lemma fl_ratio_EUR_JPY: "fl_mag (1351079888211148800 / 8286623314361713) = Some (2868291202893913 / 17592186044416)"
  using fl_mag_cert[of "1351079888211148800 / 8286623314361713" 1029 5736582405787826] by simp

lemma fl_ratio_GBP_USD: "fl_mag (4503599627370496 / 3512807709348987) = Some (1443461419029005 / 1125899906842624)"
  using fl_mag_cert[of "4503599627370496 / 3512807709348987" 1022 5773845676116020] by simp

lemma fl_ratio_GBP_EUR: "fl_mag (8286623314361713 / 7025615418697974) = Some (5311938022026739 / 4503599627370496)"
  using fl_mag_cert[of "8286623314361713 / 7025615418697974" 1022 5311938022026739] by simp

lemma fl_ratio_GBP_JPY: "fl_mag (225179981368524800 / 1170935903116329) = Some (6766225401698461 / 35184372088832)"
  using fl_mag_cert[of "225179981368524800 / 1170935903116329" 1029 6766225401698461] by simp

lemma fl_ratio_JPY_USD: "fl_mag (1 / 150) = Some (7686143364045647 / 1152921504606846976)"
  using fl_mag_cert[of "1 / 150" 1014 7686143364045647] by simp

lemma fl_ratio_JPY_EUR: "fl_mag (8286623314361713 / 1351079888211148800) = Some (7071251894921995 / 1152921504606846976)"
  using fl_mag_cert[of "8286623314361713 / 1351079888211148800" 1014 7071251894921995] by simp

lemma fl_ratio_JPY_GBP: "fl_mag (1170935903116329 / 225179981368524800) = Some (1498797955988901 / 288230376151711744)"
  using fl_mag_cert[of "1170935903116329 / 225179981368524800" 1014 5995191823955604] by simp

lemma rhe_one_USD_EUR: "round_half_even (207165582859042825 / 2251799813685248) = 92"
  using rhe_unique[of "207165582859042825 / 2251799813685248" 92] by simp

lemma fl_one_USD_EUR: "fl_mag (23 / 25) = Some (8286623314361713 / 9007199254740992)"
  using fl_mag_cert[of "23 / 25" 1021 8286623314361713] by simp

lemma rhe_one_USD_GBP: "round_half_even (87820192733724675 / 1125899906842624) = 78"
  using rhe_unique[of "87820192733724675 / 1125899906842624" 78] by simp

lemma fl_one_USD_GBP: "fl_mag (39 / 50) = Some (3512807709348987 / 4503599627370496)"
  using fl_mag_cert[of "39 / 50" 1021 7025615418697974] by simp

lemma fl_id_EUR_USD: "fl_mag (2447608493136139 / 2251799813685248) = Some (2447608493136139 / 2251799813685248)"
  using fl_mag_cert[of "2447608493136139 / 2251799813685248" 1022 4895216986272278] by simp

lemma rhe_one_EUR_USD: "round_half_even (61190212328403475 / 562949953421312) = 109"
  using rhe_unique[of "61190212328403475 / 562949953421312" 109] by simp

lemma fl_one_EUR_USD: "fl_mag (109 / 100) = Some (4908923593833841 / 4503599627370496)"
  using fl_mag_cert[of "109 / 100" 1022 4908923593833841] by simp

lemma fl_id_EUR_GBP: "fl_mag (3818269249292377 / 4503599627370496) = Some (3818269249292377 / 4503599627370496)"
  using fl_mag_cert[of "3818269249292377 / 4503599627370496" 1021 7636538498584754] by simp

lemma rhe_one_EUR_GBP: "round_half_even (95456731232309425 / 1125899906842624) = 85"
  using rhe_unique[of "95456731232309425 / 1125899906842624" 85] by simp

lemma fl_one_EUR_GBP: "fl_mag (17 / 20) = Some (7656119366529843 / 9007199254740992)"
  using fl_mag_cert[of "17 / 20" 1021 7656119366529843] by simp

lemma fl_id_EUR_JPY: "fl_mag (2868291202893913 / 17592186044416) = Some (2868291202893913 / 17592186044416)"
  using fl_mag_cert[of "2868291202893913 / 17592186044416" 1029 5736582405787826] by simp

lemma rhe_one_EUR_JPY: "round_half_even (71707280072347825 / 4398046511104) = 16304"
  using rhe_unique[of "71707280072347825 / 4398046511104" 16304] by simp

lemma fl_one_EUR_JPY: "fl_mag (4076 / 25) = Some (5736460025363169 / 35184372088832)"
  using fl_mag_cert[of "4076 / 25" 1029 5736460025363169] by simp

lemma fl_id_GBP_USD: "fl_mag (1443461419029005 / 1125899906842624) = Some (1443461419029005 / 1125899906842624)"
  using fl_mag_cert[of "1443461419029005 / 1125899906842624" 1022 5773845676116020] by simp

lemma rhe_one_GBP_USD: "round_half_even (36086535475725125 / 281474976710656) = 128"
  using rhe_unique[of "36086535475725125 / 281474976710656" 128] by simp

lemma fl_one_GBP_USD: "fl_mag (32 / 25) = Some (5764607523034235 / 4503599627370496)"
  using fl_mag_cert[of "32 / 25" 1022 5764607523034235] by simp

lemma fl_id_GBP_EUR: "fl_mag (5311938022026739 / 4503599627370496) = Some (5311938022026739 / 4503599627370496)"
  using fl_mag_cert[of "5311938022026739 / 4503599627370496" 1022 5311938022026739] by simp

lemma rhe_one_GBP_EUR: "round_half_even (132798450550668475 / 1125899906842624) = 118"
  using rhe_unique[of "132798450550668475 / 1125899906842624" 118] by simp

lemma fl_one_GBP_EUR: "fl_mag (59 / 50) = Some (5314247560297185 / 4503599627370496)"
  using fl_mag_cert[of "59 / 50" 1022 5314247560297185] by simp

lemma fl_id_GBP_JPY: "fl_mag (6766225401698461 / 35184372088832) = Some (6766225401698461 / 35184372088832)"
  using fl_mag_cert[of "6766225401698461 / 35184372088832" 1029 6766225401698461] by simp

lemma rhe_one_GBP_JPY: "round_half_even (169155635042461525 / 8796093022208) = 19231"
  using rhe_unique[of "169155635042461525 / 8796093022208" 19231] by simp

lemma fl_one_GBP_JPY: "fl_mag (19231 / 100) = Some (3383153298201641 / 17592186044416)"
  using fl_mag_cert[of "19231 / 100" 1029 6766306596403282] by simp

lemma fl_id_JPY_USD: "fl_mag (7686143364045647 / 1152921504606846976) = Some (7686143364045647 / 1152921504606846976)"
  using fl_mag_cert[of "7686143364045647 / 1152921504606846976" 1014 7686143364045647] by simp

lemma rhe_one_JPY_USD: "round_half_even (192153584101141175 / 288230376151711744) = 1"
  using rhe_unique[of "192153584101141175 / 288230376151711744" 1] by simp

lemma fl_one_JPY_USD: "fl_mag (1 / 100) = Some (5764607523034235 / 576460752303423488)"
  using fl_mag_cert[of "1 / 100" 1015 5764607523034235] by simp

lemma fl_id_JPY_EUR: "fl_mag (7071251894921995 / 1152921504606846976) = Some (7071251894921995 / 1152921504606846976)"
  using fl_mag_cert[of "7071251894921995 / 1152921504606846976" 1014 7071251894921995] by simp

lemma rhe_one_JPY_EUR: "round_half_even (176781297373049875 / 288230376151711744) = 1"
  using rhe_unique[of "176781297373049875 / 288230376151711744" 1] by simp

lemma fl_id_JPY_GBP: "fl_mag (1498797955988901 / 288230376151711744) = Some (1498797955988901 / 288230376151711744)"
  using fl_mag_cert[of "1498797955988901 / 288230376151711744" 1014 5995191823955604] by simp

lemma rhe_one_JPY_GBP: "round_half_even (37469948899722525 / 72057594037927936) = 1"
  using rhe_unique[of "37469948899722525 / 72057594037927936" 1] by simp

lemmas round_trip_certs = fl_mag_1 fl_ratio_USD_EUR fl_ratio_USD_GBP fl_ratio_USD_JPY fl_ratio_EUR_USD fl_ratio_EUR_GBP
  fl_ratio_EUR_JPY fl_ratio_GBP_USD fl_ratio_GBP_EUR fl_ratio_GBP_JPY fl_ratio_JPY_USD
  fl_ratio_JPY_EUR fl_ratio_JPY_GBP rhe_one_USD_EUR fl_one_USD_EUR rhe_one_USD_GBP
  fl_one_USD_GBP fl_id_EUR_USD rhe_one_EUR_USD fl_one_EUR_USD fl_id_EUR_GBP
  rhe_one_EUR_GBP fl_one_EUR_GBP fl_id_EUR_JPY rhe_one_EUR_JPY fl_one_EUR_JPY
  fl_id_GBP_USD rhe_one_GBP_USD fl_one_GBP_USD fl_id_GBP_EUR rhe_one_GBP_EUR
  fl_one_GBP_EUR fl_id_GBP_JPY rhe_one_GBP_JPY fl_one_GBP_JPY fl_id_JPY_USD
  rhe_one_JPY_USD fl_one_JPY_USD fl_id_JPY_EUR rhe_one_JPY_EUR fl_id_JPY_GBP
  rhe_one_JPY_GBP

lemma convert_one_USD_USD:
  "convert_currency (PStr ''USD'') (PStr ''USD'') (Fin False 1) = Inr (Fin False 1)"
  by (simp add: convert_currency_def fallback_rates_eval mk_double_def py_round_def rhe_numeral
      round_trip_certs)

lemma convert_one_USD_EUR:
  "convert_currency (PStr ''USD'') (PStr ''EUR'') (Fin False 1) = Inr (Fin False (8286623314361713 / 9007199254740992))"
  by (simp add: convert_currency_def fallback_rates_eval mk_double_def py_round_def rhe_numeral
      round_trip_certs)

lemma convert_one_USD_GBP:
  "convert_currency (PStr ''USD'') (PStr ''GBP'') (Fin False 1) = Inr (Fin False (3512807709348987 / 4503599627370496))"
  by (simp add: convert_currency_def fallback_rates_eval mk_double_def py_round_def rhe_numeral
      round_trip_certs)

lemma convert_one_USD_JPY:
  "convert_currency (PStr ''USD'') (PStr ''JPY'') (Fin False 1) = Inr (Fin False 150)"
  by (simp add: convert_currency_def fallback_rates_eval mk_double_def py_round_def rhe_numeral
      round_trip_certs)

lemma convert_one_EUR_USD:
  "convert_currency (PStr ''EUR'') (PStr ''USD'') (Fin False 1) = Inr (Fin False (4908923593833841 / 4503599627370496))"
  by (simp add: convert_currency_def fallback_rates_eval mk_double_def py_round_def rhe_numeral
      round_trip_certs)

lemma convert_one_EUR_EUR:
  "convert_currency (PStr ''EUR'') (PStr ''EUR'') (Fin False 1) = Inr (Fin False 1)"
  by (simp add: convert_currency_def fallback_rates_eval mk_double_def py_round_def rhe_numeral
      round_trip_certs)

lemma convert_one_EUR_GBP:
  "convert_currency (PStr ''EUR'') (PStr ''GBP'') (Fin False 1) = Inr (Fin False (7656119366529843 / 9007199254740992))"
  by (simp add: convert_currency_def fallback_rates_eval mk_double_def py_round_def rhe_numeral
      round_trip_certs)

lemma convert_one_EUR_JPY:
  "convert_currency (PStr ''EUR'') (PStr ''JPY'') (Fin False 1) = Inr (Fin False (5736460025363169 / 35184372088832))"
  by (simp add: convert_currency_def fallback_rates_eval mk_double_def py_round_def rhe_numeral
      round_trip_certs)

lemma convert_one_GBP_USD:
  "convert_currency (PStr ''GBP'') (PStr ''USD'') (Fin False 1) = Inr (Fin False (5764607523034235 / 4503599627370496))"
  by (simp add: convert_currency_def fallback_rates_eval mk_double_def py_round_def rhe_numeral
      round_trip_certs)

lemma convert_one_GBP_EUR:
  "convert_currency (PStr ''GBP'') (PStr ''EUR'') (Fin False 1) = Inr (Fin False (5314247560297185 / 4503599627370496))"
  by (simp add: convert_currency_def fallback_rates_eval mk_double_def py_round_def rhe_numeral
      round_trip_certs)

lemma convert_one_GBP_GBP:
  "convert_currency (PStr ''GBP'') (PStr ''GBP'') (Fin False 1) = Inr (Fin False 1)"
  by (simp add: convert_currency_def fallback_rates_eval mk_double_def py_round_def rhe_numeral
      round_trip_certs)

lemma convert_one_GBP_JPY:
  "convert_currency (PStr ''GBP'') (PStr ''JPY'') (Fin False 1) = Inr (Fin False (3383153298201641 / 17592186044416))"
  by (simp add: convert_currency_def fallback_rates_eval mk_double_def py_round_def rhe_numeral
      round_trip_certs)

lemma convert_one_JPY_USD:
  "convert_currency (PStr ''JPY'') (PStr ''USD'') (Fin False 1) = Inr (Fin False (5764607523034235 / 576460752303423488))"
  by (simp add: convert_currency_def fallback_rates_eval mk_double_def py_round_def rhe_numeral
      round_trip_certs)

lemma convert_one_JPY_JPY:
  "convert_currency (PStr ''JPY'') (PStr ''JPY'') (Fin False 1) = Inr (Fin False 1)"
  by (simp add: convert_currency_def fallback_rates_eval mk_double_def py_round_def rhe_numeral
      round_trip_certs)

subsection \<open>The round trip, pair by pair\<close>

lemma round_trip_USD_USD:
  assumes "0 \<le> a" and "a \<le> 10 ^ 300"
  shows "\<exists>p. round_trip ''USD'' ''USD'' (Fin s a) = Inr (Fin s p) \<and> \<bar>p - a\<bar> \<le> 3 / 1000 * a + 1"
  by (rule round_trip_pair[where s = s and ta = "Fin False 1" and tb = "Fin False 1"
        and rho = "1" and kap = "1", OF assms])
    (simp_all add: fallback_rates_eval mk_double_def round_trip_certs convert_one_USD_USD)

lemma round_trip_USD_EUR:
  assumes "0 \<le> a" and "a \<le> 10 ^ 300"
  shows "\<exists>p. round_trip ''USD'' ''EUR'' (Fin s a) = Inr (Fin s p) \<and> \<bar>p - a\<bar> \<le> 3 / 1000 * a + 1"
  by (rule round_trip_pair[where s = s and ta = "Fin False 1" and tb = "Fin False (8286623314361713 / 9007199254740992)"
        and rho = "8286623314361713 / 9007199254740992" and kap = "4908923593833841 / 4503599627370496", OF assms])
    (simp_all add: fallback_rates_eval mk_double_def round_trip_certs convert_one_EUR_USD)

lemma round_trip_USD_GBP:
  assumes "0 \<le> a" and "a \<le> 10 ^ 300"
  shows "\<exists>p. round_trip ''USD'' ''GBP'' (Fin s a) = Inr (Fin s p) \<and> \<bar>p - a\<bar> \<le> 3 / 1000 * a + 1"
  by (rule round_trip_pair[where s = s and ta = "Fin False 1" and tb = "Fin False (3512807709348987 / 4503599627370496)"
        and rho = "3512807709348987 / 4503599627370496" and kap = "5764607523034235 / 4503599627370496", OF assms])
    (simp_all add: fallback_rates_eval mk_double_def round_trip_certs convert_one_GBP_USD)

lemma round_trip_EUR_USD:
  assumes "0 \<le> a" and "a \<le> 10 ^ 300"
  shows "\<exists>p. round_trip ''EUR'' ''USD'' (Fin s a) = Inr (Fin s p) \<and> \<bar>p - a\<bar> \<le> 3 / 1000 * a + 1"
  by (rule round_trip_pair[where s = s and ta = "Fin False (8286623314361713 / 9007199254740992)" and tb = "Fin False 1"
        and rho = "2447608493136139 / 2251799813685248" and kap = "8286623314361713 / 9007199254740992", OF assms])
    (simp_all add: fallback_rates_eval mk_double_def round_trip_certs convert_one_USD_EUR)

lemma round_trip_EUR_EUR:
  assumes "0 \<le> a" and "a \<le> 10 ^ 300"
  shows "\<exists>p. round_trip ''EUR'' ''EUR'' (Fin s a) = Inr (Fin s p) \<and> \<bar>p - a\<bar> \<le> 3 / 1000 * a + 1"
  by (rule round_trip_pair[where s = s and ta = "Fin False (8286623314361713 / 9007199254740992)" and tb = "Fin False (8286623314361713 / 9007199254740992)"
        and rho = "1" and kap = "1", OF assms])
    (simp_all add: fallback_rates_eval mk_double_def round_trip_certs convert_one_EUR_EUR)

lemma round_trip_EUR_GBP:
  assumes "0 \<le> a" and "a \<le> 10 ^ 300"
  shows "\<exists>p. round_trip ''EUR'' ''GBP'' (Fin s a) = Inr (Fin s p) \<and> \<bar>p - a\<bar> \<le> 3 / 1000 * a + 1"
  by (rule round_trip_pair[where s = s and ta = "Fin False (8286623314361713 / 9007199254740992)" and tb = "Fin False (3512807709348987 / 4503599627370496)"
        and rho = "3818269249292377 / 4503599627370496" and kap = "5314247560297185 / 4503599627370496", OF assms])
    (simp_all add: fallback_rates_eval mk_double_def round_trip_certs convert_one_GBP_EUR)

lemma round_trip_GBP_USD:
  assumes "0 \<le> a" and "a \<le> 10 ^ 300"
  shows "\<exists>p. round_trip ''GBP'' ''USD'' (Fin s a) = Inr (Fin s p) \<and> \<bar>p - a\<bar> \<le> 3 / 1000 * a + 1"
  by (rule round_trip_pair[where s = s and ta = "Fin False (3512807709348987 / 4503599627370496)" and tb = "Fin False 1"
        and rho = "1443461419029005 / 1125899906842624" and kap = "3512807709348987 / 4503599627370496", OF assms])
    (simp_all add: fallback_rates_eval mk_double_def round_trip_certs convert_one_USD_GBP)

lemma round_trip_GBP_EUR:
  assumes "0 \<le> a" and "a \<le> 10 ^ 300"
  shows "\<exists>p. round_trip ''GBP'' ''EUR'' (Fin s a) = Inr (Fin s p) \<and> \<bar>p - a\<bar> \<le> 3 / 1000 * a + 1"
  by (rule round_trip_pair[where s = s and ta = "Fin False (3512807709348987 / 4503599627370496)" and tb = "Fin False (8286623314361713 / 9007199254740992)"
        and rho = "5311938022026739 / 4503599627370496" and kap = "7656119366529843 / 9007199254740992", OF assms])
    (simp_all add: fallback_rates_eval mk_double_def round_trip_certs convert_one_EUR_GBP)

lemma round_trip_GBP_GBP:
  assumes "0 \<le> a" and "a \<le> 10 ^ 300"
  shows "\<exists>p. round_trip ''GBP'' ''GBP'' (Fin s a) = Inr (Fin s p) \<and> \<bar>p - a\<bar> \<le> 3 / 1000 * a + 1"
  by (rule round_trip_pair[where s = s and ta = "Fin False (3512807709348987 / 4503599627370496)" and tb = "Fin False (3512807709348987 / 4503599627370496)"
        and rho = "1" and kap = "1", OF assms])
    (simp_all add: fallback_rates_eval mk_double_def round_trip_certs convert_one_GBP_GBP)

lemma round_trip_JPY_USD:
  assumes "0 \<le> a" and "a \<le> 10 ^ 300"
  shows "\<exists>p. round_trip ''JPY'' ''USD'' (Fin s a) = Inr (Fin s p) \<and> \<bar>p - a\<bar> \<le> 3 / 1000 * a + 1"
  by (rule round_trip_pair[where s = s and ta = "Fin False 150" and tb = "Fin False 1"
        and rho = "7686143364045647 / 1152921504606846976" and kap = "150", OF assms])
    (simp_all add: fallback_rates_eval mk_double_def round_trip_certs convert_one_USD_JPY)

lemma round_trip_JPY_EUR:
  assumes "0 \<le> a" and "a \<le> 10 ^ 300"
  shows "\<exists>p. round_trip ''JPY'' ''EUR'' (Fin s a) = Inr (Fin s p) \<and> \<bar>p - a\<bar> \<le> 3 / 1000 * a + 1"
  by (rule round_trip_pair[where s = s and ta = "Fin False 150" and tb = "Fin False (8286623314361713 / 9007199254740992)"
        and rho = "7071251894921995 / 1152921504606846976" and kap = "5736460025363169 / 35184372088832", OF assms])
    (simp_all add: fallback_rates_eval mk_double_def round_trip_certs convert_one_EUR_JPY)

lemma round_trip_JPY_GBP:
  assumes "0 \<le> a" and "a \<le> 10 ^ 300"
  shows "\<exists>p. round_trip ''JPY'' ''GBP'' (Fin s a) = Inr (Fin s p) \<and> \<bar>p - a\<bar> \<le> 3 / 1000 * a + 1"
  by (rule round_trip_pair[where s = s and ta = "Fin False 150" and tb = "Fin False (3512807709348987 / 4503599627370496)"
        and rho = "1498797955988901 / 288230376151711744" and kap = "3383153298201641 / 17592186044416", OF assms])
    (simp_all add: fallback_rates_eval mk_double_def round_trip_certs convert_one_GBP_JPY)

lemma round_trip_JPY_JPY:
  assumes "0 \<le> a" and "a \<le> 10 ^ 300"
  shows "\<exists>p. round_trip ''JPY'' ''JPY'' (Fin s a) = Inr (Fin s p) \<and> \<bar>p - a\<bar> \<le> 3 / 1000 * a + 1"
  by (rule round_trip_pair[where s = s and ta = "Fin False 150" and tb = "Fin False 150"
        and rho = "1" and kap = "1", OF assms])
    (simp_all add: fallback_rates_eval mk_double_def round_trip_certs convert_one_JPY_JPY)


lemma fl_mag_15000: "fl_mag 15000 = Some 15000"
  using fl_mag_cert[of 15000 1035 8246337208320000] by simp

lemma fl_mag_15000_001:
  "fl_mag (10808639105689190625 / 72057594037927936) = Some 150"
  using fl_mag_cert[of "10808639105689190625 / 72057594037927936" 1029 5277655813324800] by simp

text \<open>
  Claim C8, as stated: for every pair of valid codes \<open>A\<close>, \<open>B\<close> and every amount,
  \<open>convertCurrency(A, B, amt) * convertCurrency(B, A, 1)\<close> is the amount up to a rounding
  tolerance. It fails at \<open>A = USD\<close>, \<open>B = JPY\<close>, \<open>amt = 100\<close>: the first factor is
  \<open>15000.0\<close>, the second is \<open>round(1 / 150, 2) = 0.01\<close>, and the product is \<open>150.0\<close>.
\<close>

theorem round_trip_counterexample:
  "valid_double (Fin False 100)
   \<and> convert_currency (PStr ''USD'') (PStr ''JPY'') (Fin False 100) = Inr (Fin False 15000)
   \<and> convert_currency (PStr ''JPY'') (PStr ''USD'') (Fin False 1)
       = Inr (Fin False (5764607523034235 / 576460752303423488))
   \<and> round_trip ''USD'' ''JPY'' (Fin False 100) = Inr (Fin False 150)
   \<and> \<not> \<bar>(150 :: rat) - 100\<bar> \<le> 3 / 1000 * 100 + 1"
proof -
  have a: "convert_currency (PStr ''USD'') (PStr ''JPY'') (Fin False 100) = Inr (Fin False 15000)"
    by (simp add: convert_currency_def fallback_rates_eval mk_double_def py_round_def rhe_numeral
        fl_mag_150 fl_mag_15000)
  have "round_trip ''USD'' ''JPY'' (Fin False 100) = Inr (Fin False 150)"
    by (simp add: round_trip_def a convert_one_JPY_USD mk_double_def fl_mag_15000_001)
  then show ?thesis using a convert_one_JPY_USD by (simp add: fl_mag_100)
qed

text \<open>
  Claim C8, amended: for every pair of valid codes \<open>A\<close>, \<open>B\<close> other than a conversion
  from another currency into JPY, and every finite amount of magnitude at most \<open>10 ^ 300\<close>,
  the product \<open>convertCurrency(A, B, amt) * convertCurrency(B, A, 1)\<close> is finite, has the
  sign of the amount and differs from it by at most \<open>0.003 * |amt| + 1\<close>.
\<close>

theorem round_trip_bound:
  assumes "valid_double (Fin s a)" and "a \<le> 10 ^ 300"
    and "map_of fallback_rates A = Some ta" and "map_of fallback_rates B = Some tb"
    and "B \<noteq> ''JPY'' \<or> A = ''JPY''"
  shows "\<exists>p. round_trip A B (Fin s a) = Inr (Fin s p) \<and> \<bar>p - a\<bar> \<le> 3 / 1000 * a + 1"
proof -
  have a0: "0 \<le> a" using assms(1) by simp
  have A: "A = ''USD'' \<or> A = ''EUR'' \<or> A = ''GBP'' \<or> A = ''JPY''"
    using assms(3) by (auto simp: fallback_rates_def split: if_splits)
  have B: "B = ''USD'' \<or> B = ''EUR'' \<or> B = ''GBP'' \<or> B = ''JPY''"
    using assms(4) by (auto simp: fallback_rates_def split: if_splits)
  note rts = round_trip_USD_USD[OF a0 assms(2), of s]
    round_trip_USD_EUR[OF a0 assms(2), of s]
    round_trip_USD_GBP[OF a0 assms(2), of s]
    round_trip_EUR_USD[OF a0 assms(2), of s]
    round_trip_EUR_EUR[OF a0 assms(2), of s]
    round_trip_EUR_GBP[OF a0 assms(2), of s]
    round_trip_GBP_USD[OF a0 assms(2), of s]
    round_trip_GBP_EUR[OF a0 assms(2), of s]
    round_trip_GBP_GBP[OF a0 assms(2), of s]
    round_trip_JPY_USD[OF a0 assms(2), of s]
    round_trip_JPY_EUR[OF a0 assms(2), of s]
    round_trip_JPY_GBP[OF a0 assms(2), of s]
    round_trip_JPY_JPY[OF a0 assms(2), of s]
  show ?thesis using A B assms(5) rts by (elim disjE) simp_all
qed

theorem round_trip_bound_witness:
  "valid_double (Fin True 100) \<and> (100 :: rat) \<le> 10 ^ 300
   \<and> map_of fallback_rates ''JPY'' = Some (Fin False 150)
   \<and> map_of fallback_rates ''GBP'' = Some (Fin False (3512807709348987 / 4503599627370496))
   \<and> (\<exists>p. round_trip ''JPY'' ''GBP'' (Fin True 100) = Inr (Fin True p)
          \<and> \<bar>p - 100\<bar> \<le> 3 / 1000 * 100 + 1)"
proof -
  have v: "valid_double (Fin True 100)" by (simp add: fl_mag_100)
  have n: "(100 :: rat) \<le> 10 ^ 300" by simp
  have j: "map_of fallback_rates ''JPY'' = Some (Fin False 150)"
    by (simp add: fallback_rates_eval)
  have g: "map_of fallback_rates ''GBP'' = Some (Fin False (3512807709348987 / 4503599627370496))"
    by (simp add: fallback_rates_eval)
  show ?thesis using v n j g round_trip_bound[OF v n j g] by simp
qed

end
